theory Spec2Isabelle
  imports Main "HOL-Library.Word" "HOL-Library.Log_Nat"
begin

unbundle bit_operations_syntax

text \<open>
  A model of the PCA9685 PWM driver (Pca9685Pwm.h, Pca9685Pwm.cpp) and proofs about it.
  Each method of the class is a function from the driver's state to a result code and the
  new state; the I2C transport is part of the state and logs the calls made on it. Where
  C++ leaves the behaviour undefined (a float converted to an integer type that cannot
  hold it) the result is \<open>None\<close>.
\<close>

section \<open>Single-precision arithmetic used by the driver\<close>

text \<open>
  The driver computes with C++ \<open>float\<close> (IEEE 754 binary32). A value is a finite
  rational, an infinity or a NaN. The two zeros are identified: no comparison of the
  driver tells them apart and no division of the driver has a negative zero as divisor.
  Every arithmetic operation rounds its exact result to the nearest binary32 value, ties
  to even, as the default rounding mode does.
\<close>

datatype float32 = Finite rat | PlusInf | MinusInf | NaN

text \<open>\<open>ilog2 x\<close> is the binary exponent of a positive rational: \<open>2^e \<le> x < 2^(e+1)\<close>.\<close>

definition ilog2 :: "rat \<Rightarrow> int" where
  "ilog2 x = (let (p, q) = quotient_of x; e = bitlen p - bitlen q
              in if 2 powi e \<le> x then e else e - 1)"

definition round_half_even :: "rat \<Rightarrow> int" where
  "round_half_even x =
     (let n = \<lfloor>x\<rfloor>; r = x - of_int n
      in if r < 1 / 2 then n else if 1 / 2 < r then n + 1
         else if even n then n else n + 1)"

text \<open>
  Rounding to binary32: 24 significant bits, the least quantum \<open>2^-149\<close> (subnormal
  numbers), overflow to an infinity from \<open>2^128\<close> on.
\<close>

definition fl32 :: "rat \<Rightarrow> float32" where
  "fl32 x =
     (if x = 0 then Finite 0
      else let a = \<bar>x\<bar>;
               t = max (ilog2 a - 23) (- 149);
               y = of_int (round_half_even (a / 2 powi t)) * 2 powi t
           in if 2 ^ 128 \<le> y then (if 0 < x then PlusInf else MinusInf)
              else Finite (sgn x * y))"

fun fmul :: "float32 \<Rightarrow> float32 \<Rightarrow> float32" where
  "fmul NaN _ = NaN"
| "fmul _ NaN = NaN"
| "fmul (Finite a) (Finite b) = fl32 (a * b)"
| "fmul (Finite a) PlusInf = (if a = 0 then NaN else if 0 < a then PlusInf else MinusInf)"
| "fmul (Finite a) MinusInf = (if a = 0 then NaN else if 0 < a then MinusInf else PlusInf)"
| "fmul PlusInf (Finite b) = (if b = 0 then NaN else if 0 < b then PlusInf else MinusInf)"
| "fmul MinusInf (Finite b) = (if b = 0 then NaN else if 0 < b then MinusInf else PlusInf)"
| "fmul PlusInf PlusInf = PlusInf"
| "fmul PlusInf MinusInf = MinusInf"
| "fmul MinusInf PlusInf = MinusInf"
| "fmul MinusInf MinusInf = PlusInf"

text \<open>A zero divisor is taken as \<open>+0\<close>: the driver's only divisor comes from an unsigned integer.\<close>

fun fdiv :: "float32 \<Rightarrow> float32 \<Rightarrow> float32" where
  "fdiv NaN _ = NaN"
| "fdiv _ NaN = NaN"
| "fdiv (Finite a) (Finite b) =
     (if b = 0 then (if a = 0 then NaN else if 0 < a then PlusInf else MinusInf)
      else fl32 (a / b))"
| "fdiv (Finite a) PlusInf = Finite 0"
| "fdiv (Finite a) MinusInf = Finite 0"
| "fdiv PlusInf (Finite b) = (if 0 \<le> b then PlusInf else MinusInf)"
| "fdiv MinusInf (Finite b) = (if 0 \<le> b then MinusInf else PlusInf)"
| "fdiv PlusInf PlusInf = NaN"
| "fdiv PlusInf MinusInf = NaN"
| "fdiv MinusInf PlusInf = NaN"
| "fdiv MinusInf MinusInf = NaN"

fun fsub :: "float32 \<Rightarrow> float32 \<Rightarrow> float32" where
  "fsub NaN _ = NaN"
| "fsub _ NaN = NaN"
| "fsub (Finite a) (Finite b) = fl32 (a - b)"
| "fsub (Finite a) PlusInf = MinusInf"
| "fsub (Finite a) MinusInf = PlusInf"
| "fsub PlusInf (Finite b) = PlusInf"
| "fsub MinusInf (Finite b) = MinusInf"
| "fsub PlusInf PlusInf = NaN"
| "fsub PlusInf MinusInf = PlusInf"
| "fsub MinusInf PlusInf = MinusInf"
| "fsub MinusInf MinusInf = NaN"

text \<open>The comparisons of C++: each is false as soon as an operand is a NaN.\<close>

fun flt :: "float32 \<Rightarrow> float32 \<Rightarrow> bool" where
  "flt NaN _ = False"
| "flt _ NaN = False"
| "flt (Finite a) (Finite b) = (a < b)"
| "flt (Finite a) PlusInf = True"
| "flt (Finite a) MinusInf = False"
| "flt PlusInf _ = False"
| "flt MinusInf (Finite b) = True"
| "flt MinusInf PlusInf = True"
| "flt MinusInf MinusInf = False"

fun fle :: "float32 \<Rightarrow> float32 \<Rightarrow> bool" where
  "fle NaN _ = False"
| "fle _ NaN = False"
| "fle (Finite a) (Finite b) = (a \<le> b)"
| "fle (Finite a) PlusInf = True"
| "fle (Finite a) MinusInf = False"
| "fle PlusInf (Finite b) = False"
| "fle PlusInf PlusInf = True"
| "fle PlusInf MinusInf = False"
| "fle MinusInf _ = True"

definition fgt :: "float32 \<Rightarrow> float32 \<Rightarrow> bool" where
  "fgt x y = flt y x"

definition fge :: "float32 \<Rightarrow> float32 \<Rightarrow> bool" where
  "fge x y = fle y x"

text \<open>\<open>std::round\<close>: to the nearest integer, halfway cases away from zero.\<close>

definition round_half_away :: "rat \<Rightarrow> int" where
  "round_half_away x = (if 0 \<le> x then \<lfloor>x + 1 / 2\<rfloor> else \<lceil>x - 1 / 2\<rceil>)"

fun fround :: "float32 \<Rightarrow> float32" where
  "fround (Finite a) = Finite (of_int (round_half_away a))"
| "fround x = x"

text \<open>
  \<open>static_cast\<close> from \<open>float\<close> to an unsigned integer type truncates towards zero.
  The behaviour is undefined when the truncated value does not fit the type, and for an
  infinity or a NaN: the model returns \<open>None\<close> there.
\<close>

definition truncate_rat :: "rat \<Rightarrow> int" where
  "truncate_rat x = (if 0 \<le> x then \<lfloor>x\<rfloor> else \<lceil>x\<rceil>)"

definition float_to_uint :: "float32 \<Rightarrow> 'a::len word option" where
  "float_to_uint x =
     (case x of
        Finite a \<Rightarrow>
          (let t = truncate_rat a
           in if 0 \<le> t \<and> t < 2 ^ LENGTH('a) then Some (word_of_int t) else None)
      | _ \<Rightarrow> None)"

text \<open>Conversion of an unsigned integer to \<open>float\<close>.\<close>

definition uint_to_float :: "'a::len word \<Rightarrow> float32" where
  "uint_to_float w = fl32 (of_nat (unat w))"

section \<open>Result codes and the transport\<close>

text \<open>
  Modelled from the spec: \<open>HfPwmErr\<close> is declared in BasePwm.h, which is not among the
  sources. The codes are success and the seven error kinds of the spec's error handling
  design, under the names the driver uses for them.
\<close>

datatype HfPwmErr =
    PWM_SUCCESS
  | PWM_INVALID_ARGUMENT
  | PWM_HARDWARE_ERROR
  | PWM_NOT_INITIALIZED
  | PWM_INVALID_CHANNEL
  | PWM_INVALID_FREQUENCY
  | PWM_INVALID_DUTY_CYCLE
  | PWM_NOT_SUPPORTED

text \<open>
  Modelled from the spec: \<open>HfI2cErr\<close> is declared in BaseI2c.h, which is not among the
  sources. The transport reports a status; the driver only compares it with
  \<open>I2C_SUCCESS\<close>, so one other value stands for every failure.
\<close>

datatype HfI2cErr = I2C_SUCCESS | I2C_FAILURE

text \<open>
  Modelled from the spec: the transport, the abstract class \<open>BaseI2c\<close> of BaseI2c.h, which
  is not among the sources. The spec's transport contract has four operations, each
  returning a status: \<open>Initialize\<close>, \<open>Deinitialize\<close>, \<open>Write\<close> of bytes to an address and
  \<open>WriteRead\<close>, a write followed by a read. The model records every call made on the
  transport, oldest first, and takes the transport's behaviour as given: \<open>status_of n\<close>
  is the status of the call number \<open>n\<close> (counted from 0) and \<open>byte_of n\<close> the byte it
  delivers if it is a one-byte read.
\<close>

datatype i2c_call =
    BusInitialize
  | BusDeinitialize
  | BusWrite "8 word" "8 word list"
  | BusWriteRead "8 word" "8 word list" nat

record BaseI2c =
  status_of :: "nat \<Rightarrow> HfI2cErr"
  byte_of :: "nat \<Rightarrow> 8 word"
  calls :: "i2c_call list"

definition i2c_do :: "BaseI2c \<Rightarrow> i2c_call \<Rightarrow> HfI2cErr \<times> BaseI2c" where
  "i2c_do b c = (status_of b (length (calls b)), b\<lparr>calls := calls b @ [c]\<rparr>)"

definition i2c_Initialize :: "BaseI2c \<Rightarrow> HfI2cErr \<times> BaseI2c" where
  "i2c_Initialize b = i2c_do b BusInitialize"

definition i2c_Deinitialize :: "BaseI2c \<Rightarrow> HfI2cErr \<times> BaseI2c" where
  "i2c_Deinitialize b = i2c_do b BusDeinitialize"

definition i2c_Write :: "BaseI2c \<Rightarrow> 8 word \<Rightarrow> 8 word list \<Rightarrow> HfI2cErr \<times> BaseI2c" where
  "i2c_Write b addr bytes = i2c_do b (BusWrite addr bytes)"

text \<open>A write of \<open>out\<close> followed by a read of one byte; the byte is the second component.\<close>

definition i2c_WriteRead ::
  "BaseI2c \<Rightarrow> 8 word \<Rightarrow> 8 word list \<Rightarrow> (HfI2cErr \<times> 8 word) \<times> BaseI2c" where
  "i2c_WriteRead b addr out =
     (let (st, b') = i2c_do b (BusWriteRead addr out 1)
      in ((st, byte_of b (length (calls b))), b'))"

section \<open>The driver's data\<close>

definition MAX_CHANNELS :: "8 word" where "MAX_CHANNELS = 16"
definition MAX_PWM_VALUE :: "16 word" where "MAX_PWM_VALUE = 4095"
definition MIN_FREQUENCY :: "32 word" where "MIN_FREQUENCY = 24"
definition MAX_FREQUENCY :: "32 word" where "MAX_FREQUENCY = 1526"
definition INTERNAL_OSC_FREQ :: "32 word" where "INTERNAL_OSC_FREQ = 25000000"

text \<open>\<open>enum class Registers : uint8_t\<close>; the driver also casts computed addresses to it.\<close>

definition MODE1 :: "8 word" where "MODE1 = 0x00"
definition MODE2 :: "8 word" where "MODE2 = 0x01"
definition LED0_ON_L :: "8 word" where "LED0_ON_L = 0x06"
definition PRE_SCALE :: "8 word" where "PRE_SCALE = 0xFE"

text \<open>The bits of \<open>Mode1Bits\<close> and \<open>Mode2Bits\<close> that the driver uses.\<close>

definition EXTCLK :: "8 word" where "EXTCLK = 0x40"
definition SLEEP :: "8 word" where "SLEEP = 0x10"
definition INVRT :: "8 word" where "INVRT = 0x10"
definition OUTDRV :: "8 word" where "OUTDRV = 0x04"

record ChannelState =
  is_active :: bool
  duty_cycle :: float32
  on_time :: "16 word"
  off_time :: "16 word"

text \<open>\<open>ChannelState{}\<close>: the default member initializers.\<close>

definition ChannelState_init :: ChannelState where
  "ChannelState_init =
     \<lparr>is_active = False, duty_cycle = Finite 0, on_time = 0, off_time = 0\<rparr>"

text \<open>
  The members of the class, without the trailing underscore of the source's names.
  \<open>i2c\<close> is \<open>None\<close> for a null pointer. \<open>channels\<close> is the array of 16 channel states.
\<close>

record Pca9685Pwm =
  i2c :: "BaseI2c option"
  i2c_address :: "8 word"
  output_enable_pin :: int
  is_initialized :: bool
  current_frequency :: "32 word"
  prescale_value :: "8 word"
  channels :: "ChannelState list"

text \<open>The constructor.\<close>

definition Pca9685Pwm_new :: "BaseI2c option \<Rightarrow> 8 word \<Rightarrow> int \<Rightarrow> Pca9685Pwm" where
  "Pca9685Pwm_new i2c_interface addr oe_pin =
     \<lparr>i2c = i2c_interface, i2c_address = addr, output_enable_pin = oe_pin,
      is_initialized = False, current_frequency = 1000, prescale_value = 0,
      channels = replicate 16 ChannelState_init\<rparr>"

text \<open>
  \<open>PwmChannelConfig\<close> is declared in BasePwm.h, which is not among the sources: the
  record keeps the two fields that \<open>ConfigureChannel\<close> reads (the usage example in
  Pca9685Pwm.h sets \<open>frequency_hz\<close>, \<open>resolution_bits\<close> and \<open>initial_duty_cycle\<close>).
\<close>

record PwmChannelConfig =
  frequency_hz :: "32 word"
  initial_duty_cycle :: float32

section \<open>Register protocol\<close>

definition IsValidChannel :: "8 word \<Rightarrow> bool" where
  "IsValidChannel channel_id = (channel_id < MAX_CHANNELS)"

definition WriteRegister :: "Pca9685Pwm \<Rightarrow> 8 word \<Rightarrow> 8 word \<Rightarrow> HfPwmErr \<times> Pca9685Pwm" where
  "WriteRegister s reg v =
     (case i2c s of
        None \<Rightarrow> (PWM_HARDWARE_ERROR, s)
      | Some b \<Rightarrow>
          (let (st, b') = i2c_Write b (i2c_address s) [reg, v];
               s' = s\<lparr>i2c := Some b'\<rparr>
           in if st \<noteq> I2C_SUCCESS then (PWM_HARDWARE_ERROR, s') else (PWM_SUCCESS, s')))"

text \<open>
  \<open>ReadRegister\<close> returns its byte through a reference: the model returns \<open>Inr\<close> of the
  byte with \<open>PWM_SUCCESS\<close> and \<open>Inl\<close> of the error code otherwise.
\<close>

definition ReadRegister :: "Pca9685Pwm \<Rightarrow> 8 word \<Rightarrow> (HfPwmErr + 8 word) \<times> Pca9685Pwm" where
  "ReadRegister s reg =
     (case i2c s of
        None \<Rightarrow> (Inl PWM_HARDWARE_ERROR, s)
      | Some b \<Rightarrow>
          (let ((st, v), b') = i2c_WriteRead b (i2c_address s) [reg];
               s' = s\<lparr>i2c := Some b'\<rparr>
           in if st \<noteq> I2C_SUCCESS then (Inl PWM_HARDWARE_ERROR, s') else (Inr v, s')))"

section \<open>Frequency calculator and duty-cycle timing mapper\<close>

definition CalculatePrescale :: "32 word \<Rightarrow> 8 word option" where
  "CalculatePrescale freq =
     (let prescale_float =
            fsub (fdiv (uint_to_float INTERNAL_OSC_FREQ)
                       (fmul (Finite 4096) (uint_to_float freq)))
                 (Finite 1)
      in case float_to_uint (fround prescale_float) of
           None \<Rightarrow> None
         | Some prescale \<Rightarrow> Some (max (3 :: 8 word) (min 255 prescale)))"

text \<open>The result is the pair \<open>(on_time, off_time)\<close> that the source returns by reference.\<close>

definition DutyCycleToTiming :: "float32 \<Rightarrow> (16 word \<times> 16 word) option" where
  "DutyCycleToTiming d =
     (if fle d (Finite 0) then Some (0, MAX_PWM_VALUE)
      else if fge d (Finite 1) then Some (MAX_PWM_VALUE, 0)
      else case float_to_uint (fmul d (uint_to_float MAX_PWM_VALUE)) of
             None \<Rightarrow> None
           | Some off \<Rightarrow> Some (0, off))"

definition SetChannelTiming ::
  "Pca9685Pwm \<Rightarrow> 8 word \<Rightarrow> 16 word \<Rightarrow> 16 word \<Rightarrow> HfPwmErr \<times> Pca9685Pwm" where
  "SetChannelTiming s channel_id on off =
     (if \<not> IsValidChannel channel_id then (PWM_INVALID_CHANNEL, s)
      else
        let base_reg = LED0_ON_L + channel_id * 4;
            (result, s1) = WriteRegister s base_reg (ucast (on AND 0xFF))
        in if result \<noteq> PWM_SUCCESS then (result, s1)
        else
          let (result, s2) = WriteRegister s1 (base_reg + 1) (ucast (drop_bit 8 on AND 0xFF))
          in if result \<noteq> PWM_SUCCESS then (result, s2)
          else
            let (result, s3) = WriteRegister s2 (base_reg + 2) (ucast (off AND 0xFF))
            in if result \<noteq> PWM_SUCCESS then (result, s3)
            else
              let (result, s4) =
                    WriteRegister s3 (base_reg + 3) (ucast (drop_bit 8 off AND 0xFF))
              in if result \<noteq> PWM_SUCCESS then (result, s4)
              else (PWM_SUCCESS, s4))"

section \<open>Device state machine\<close>

text \<open>The loop of \<open>Reset\<close> over the channel array, from index \<open>i\<close> up to 15.\<close>

definition reset_channels :: "ChannelState list \<Rightarrow> ChannelState list" where
  "reset_channels cs = fold (\<lambda>i c. c[i := ChannelState_init]) [0..<unat MAX_CHANNELS] cs"

definition Reset :: "Pca9685Pwm \<Rightarrow> HfPwmErr \<times> Pca9685Pwm" where
  "Reset s =
     (case i2c s of
        None \<Rightarrow> (PWM_HARDWARE_ERROR, s)
      | Some b \<Rightarrow>
          (let (st, b') = i2c_Write b 0x00 [0x00, 0x06];
               s' = s\<lparr>i2c := Some b'\<rparr>
           in if st \<noteq> I2C_SUCCESS then (PWM_HARDWARE_ERROR, s')
              else (PWM_SUCCESS, s'\<lparr>channels := reset_channels (channels s')\<rparr>)))"

definition Sleep :: "Pca9685Pwm \<Rightarrow> HfPwmErr \<times> Pca9685Pwm" where
  "Sleep s =
     (if \<not> is_initialized s then (PWM_NOT_INITIALIZED, s)
      else case ReadRegister s MODE1 of
             (Inl e, s1) \<Rightarrow> (e, s1)
           | (Inr mode1, s1) \<Rightarrow> WriteRegister s1 MODE1 (mode1 OR SLEEP))"

definition Wakeup :: "Pca9685Pwm \<Rightarrow> HfPwmErr \<times> Pca9685Pwm" where
  "Wakeup s =
     (if \<not> is_initialized s then (PWM_NOT_INITIALIZED, s)
      else case ReadRegister s MODE1 of
             (Inl e, s1) \<Rightarrow> (e, s1)
           | (Inr mode1, s1) \<Rightarrow> WriteRegister s1 MODE1 (mode1 AND NOT SLEEP))"

text \<open>
  The result is \<open>None\<close> where the conversion inside \<open>CalculatePrescale\<close> is undefined;
  the range check before it excludes this.
\<close>

definition SetFrequency ::
  "Pca9685Pwm \<Rightarrow> 8 word \<Rightarrow> 32 word \<Rightarrow> (HfPwmErr \<times> Pca9685Pwm) option" where
  "SetFrequency s channel_id freq =
     (if \<not> is_initialized s then Some (PWM_NOT_INITIALIZED, s)
      else if \<not> IsValidChannel channel_id then Some (PWM_INVALID_CHANNEL, s)
      else if freq < MIN_FREQUENCY \<or> MAX_FREQUENCY < freq then Some (PWM_INVALID_FREQUENCY, s)
      else case CalculatePrescale freq of
        None \<Rightarrow> None
      | Some prescale \<Rightarrow>
          (case ReadRegister s MODE1 of
             (Inl e, s1) \<Rightarrow> Some (e, s1)
           | (Inr mode1, s1) \<Rightarrow>
               (let mode1a = mode1 OR SLEEP;
                    (result, s2) = WriteRegister s1 MODE1 mode1a
                in if result \<noteq> PWM_SUCCESS then Some (result, s2)
                else
                  let (result, s3) = WriteRegister s2 PRE_SCALE prescale
                  in if result \<noteq> PWM_SUCCESS then Some (result, s3)
                  else
                    let mode1b = mode1a AND NOT SLEEP;
                        (result, s4) = WriteRegister s3 MODE1 mode1b
                    in if result \<noteq> PWM_SUCCESS then Some (result, s4)
                    else Some (PWM_SUCCESS,
                               s4\<lparr>current_frequency := freq, prescale_value := prescale\<rparr>))))"

definition Initialize :: "Pca9685Pwm \<Rightarrow> (HfPwmErr \<times> Pca9685Pwm) option" where
  "Initialize s =
     (if is_initialized s then Some (PWM_SUCCESS, s)
      else case i2c s of
        None \<Rightarrow> Some (PWM_INVALID_ARGUMENT, s)
      | Some b \<Rightarrow>
          (let (st, b') = i2c_Initialize b;
               s0 = s\<lparr>i2c := Some b'\<rparr>
           in if st \<noteq> I2C_SUCCESS then Some (PWM_HARDWARE_ERROR, s0)
           else
             let (result, s1) = Reset s0
             in if result \<noteq> PWM_SUCCESS then Some (result, s1)
             else case SetFrequency s1 0 (current_frequency s1) of
               None \<Rightarrow> None
             | Some (result, s2) \<Rightarrow>
                 if result \<noteq> PWM_SUCCESS then Some (result, s2)
                 else
                   let (result, s3) = WriteRegister s2 MODE2 OUTDRV
                   in if result \<noteq> PWM_SUCCESS then Some (result, s3)
                   else
                     let (result, s4) = Wakeup s3
                     in if result \<noteq> PWM_SUCCESS then Some (result, s4)
                     else Some (PWM_SUCCESS, s4\<lparr>is_initialized := True\<rparr>)))"

section \<open>Channel operations\<close>

text \<open>
  \<open>SetDutyCycle\<close> is \<open>None\<close> where the conversion inside \<open>DutyCycleToTiming\<close> is
  undefined.
\<close>

definition SetDutyCycle ::
  "Pca9685Pwm \<Rightarrow> 8 word \<Rightarrow> float32 \<Rightarrow> (HfPwmErr \<times> Pca9685Pwm) option" where
  "SetDutyCycle s channel_id d =
     (if \<not> is_initialized s then Some (PWM_NOT_INITIALIZED, s)
      else if \<not> IsValidChannel channel_id then Some (PWM_INVALID_CHANNEL, s)
      else if flt d (Finite 0) \<or> fgt d (Finite 1) then Some (PWM_INVALID_DUTY_CYCLE, s)
      else case DutyCycleToTiming d of
        None \<Rightarrow> None
      | Some (on, off) \<Rightarrow>
          (let (result, s1) = SetChannelTiming s channel_id on off
           in if result = PWM_SUCCESS
              then Some (result,
                     s1\<lparr>channels := (channels s1)[unat channel_id :=
                        (channels s1 ! unat channel_id)
                          \<lparr>duty_cycle := d, on_time := on, off_time := off\<rparr>]\<rparr>)
              else Some (result, s1)))"

definition ConfigureChannel ::
  "Pca9685Pwm \<Rightarrow> 8 word \<Rightarrow> PwmChannelConfig \<Rightarrow> (HfPwmErr \<times> Pca9685Pwm) option" where
  "ConfigureChannel s channel_id config =
     (if \<not> is_initialized s then Some (PWM_NOT_INITIALIZED, s)
      else if \<not> IsValidChannel channel_id then Some (PWM_INVALID_CHANNEL, s)
      else if frequency_hz config < MIN_FREQUENCY \<or> MAX_FREQUENCY < frequency_hz config
        then Some (PWM_INVALID_FREQUENCY, s)
      else if flt (initial_duty_cycle config) (Finite 0) \<or> fgt (initial_duty_cycle config) (Finite 1)
        then Some (PWM_INVALID_DUTY_CYCLE, s)
      else case SetFrequency s channel_id (frequency_hz config) of
        None \<Rightarrow> None
      | Some (result, s1) \<Rightarrow>
          if result \<noteq> PWM_SUCCESS then Some (result, s1)
          else (case SetDutyCycle s1 channel_id (initial_duty_cycle config) of
                  None \<Rightarrow> None
                | Some (result, s2) \<Rightarrow>
                    if result \<noteq> PWM_SUCCESS then Some (result, s2)
                    else Some (PWM_SUCCESS, s2)))"

definition Start :: "Pca9685Pwm \<Rightarrow> 8 word \<Rightarrow> HfPwmErr \<times> Pca9685Pwm" where
  "Start s channel_id =
     (if \<not> is_initialized s then (PWM_NOT_INITIALIZED, s)
      else if \<not> IsValidChannel channel_id then (PWM_INVALID_CHANNEL, s)
      else
        let (result, s1) = SetChannelTiming s channel_id
                             (on_time (channels s ! unat channel_id))
                             (off_time (channels s ! unat channel_id))
        in if result = PWM_SUCCESS
           then (result,
                  s1\<lparr>channels := (channels s1)[unat channel_id :=
                     (channels s1 ! unat channel_id)\<lparr>is_active := True\<rparr>]\<rparr>)
           else (result, s1))"

definition Stop :: "Pca9685Pwm \<Rightarrow> 8 word \<Rightarrow> HfPwmErr \<times> Pca9685Pwm" where
  "Stop s channel_id =
     (if \<not> is_initialized s then (PWM_NOT_INITIALIZED, s)
      else if \<not> IsValidChannel channel_id then (PWM_INVALID_CHANNEL, s)
      else
        let (result, s1) = SetChannelTiming s channel_id 0 MAX_PWM_VALUE
        in if result = PWM_SUCCESS
           then (result,
                  s1\<lparr>channels := (channels s1)[unat channel_id :=
                     (channels s1 ! unat channel_id)\<lparr>is_active := False\<rparr>]\<rparr>)
           else (result, s1))"

text \<open>
  The getters return their value through a reference: the model returns \<open>Inr\<close> of the
  value with \<open>PWM_SUCCESS\<close> and \<open>Inl\<close> of the error code otherwise.
\<close>

definition GetDutyCycle :: "Pca9685Pwm \<Rightarrow> 8 word \<Rightarrow> (HfPwmErr + float32) \<times> Pca9685Pwm" where
  "GetDutyCycle s channel_id =
     (if \<not> is_initialized s then (Inl PWM_NOT_INITIALIZED, s)
      else if \<not> IsValidChannel channel_id then (Inl PWM_INVALID_CHANNEL, s)
      else (Inr (duty_cycle (channels s ! unat channel_id)), s))"

definition GetFrequency :: "Pca9685Pwm \<Rightarrow> 8 word \<Rightarrow> (HfPwmErr + 32 word) \<times> Pca9685Pwm" where
  "GetFrequency s channel_id =
     (if \<not> is_initialized s then (Inl PWM_NOT_INITIALIZED, s)
      else if \<not> IsValidChannel channel_id then (Inl PWM_INVALID_CHANNEL, s)
      else (Inr (current_frequency s), s))"

definition IsChannelActive :: "Pca9685Pwm \<Rightarrow> 8 word \<Rightarrow> bool \<times> Pca9685Pwm" where
  "IsChannelActive s channel_id =
     (if \<not> is_initialized s \<or> \<not> IsValidChannel channel_id then (False, s)
      else (is_active (channels s ! unat channel_id), s))"

definition GetMaxChannels :: "Pca9685Pwm \<Rightarrow> 8 word \<times> Pca9685Pwm" where
  "GetMaxChannels s = (MAX_CHANNELS, s)"

text \<open>The loop of \<open>Deinitialize\<close> over the channels 0 to 15; every result is dropped.\<close>

definition stop_all :: "Pca9685Pwm \<Rightarrow> Pca9685Pwm" where
  "stop_all s = fold (\<lambda>i st. snd (Stop st (of_nat i))) [0..<unat MAX_CHANNELS] s"

definition Deinitialize :: "Pca9685Pwm \<Rightarrow> HfPwmErr \<times> Pca9685Pwm" where
  "Deinitialize s =
     (if \<not> is_initialized s then (PWM_NOT_INITIALIZED, s)
      else
        let s1 = stop_all s;
            s2 = snd (Sleep s1);
            s3 = (case i2c s2 of
                    None \<Rightarrow> s2
                  | Some b \<Rightarrow> s2\<lparr>i2c := Some (snd (i2c_Deinitialize b))\<rparr>)
        in (PWM_SUCCESS, s3\<lparr>is_initialized := False\<rparr>))"

text \<open>The destructor.\<close>

definition Pca9685Pwm_destroy :: "Pca9685Pwm \<Rightarrow> Pca9685Pwm" where
  "Pca9685Pwm_destroy s = (if is_initialized s then snd (Deinitialize s) else s)"

section \<open>Batch operations\<close>

text \<open>
  A batch is a pointer and a count. The pointer is \<open>None\<close> when null and otherwise the
  array it points to; the loop reads the first \<open>num_channels\<close> elements, which the caller
  must provide.
\<close>

fun start_loop :: "Pca9685Pwm \<Rightarrow> 8 word list \<Rightarrow> HfPwmErr \<times> Pca9685Pwm" where
  "start_loop s [] = (PWM_SUCCESS, s)"
| "start_loop s (c # cs) =
     (let (result, s1) = Start s c
      in if result \<noteq> PWM_SUCCESS then (result, s1) else start_loop s1 cs)"

definition StartMultiple ::
  "Pca9685Pwm \<Rightarrow> 8 word list option \<Rightarrow> 8 word \<Rightarrow> HfPwmErr \<times> Pca9685Pwm" where
  "StartMultiple s channel_ids num_channels =
     (case channel_ids of
        None \<Rightarrow> (PWM_INVALID_ARGUMENT, s)
      | Some ids \<Rightarrow>
          if num_channels = 0 then (PWM_INVALID_ARGUMENT, s)
          else start_loop s (take (unat num_channels) ids))"

fun stop_loop :: "Pca9685Pwm \<Rightarrow> 8 word list \<Rightarrow> HfPwmErr \<times> Pca9685Pwm" where
  "stop_loop s [] = (PWM_SUCCESS, s)"
| "stop_loop s (c # cs) =
     (let (result, s1) = Stop s c
      in if result \<noteq> PWM_SUCCESS then (result, s1) else stop_loop s1 cs)"

definition StopMultiple ::
  "Pca9685Pwm \<Rightarrow> 8 word list option \<Rightarrow> 8 word \<Rightarrow> HfPwmErr \<times> Pca9685Pwm" where
  "StopMultiple s channel_ids num_channels =
     (case channel_ids of
        None \<Rightarrow> (PWM_INVALID_ARGUMENT, s)
      | Some ids \<Rightarrow>
          if num_channels = 0 then (PWM_INVALID_ARGUMENT, s)
          else stop_loop s (take (unat num_channels) ids))"

fun duty_loop :: "Pca9685Pwm \<Rightarrow> (8 word \<times> float32) list \<Rightarrow> (HfPwmErr \<times> Pca9685Pwm) option" where
  "duty_loop s [] = Some (PWM_SUCCESS, s)"
| "duty_loop s ((c, d) # cs) =
     (case SetDutyCycle s c d of
        None \<Rightarrow> None
      | Some (result, s1) \<Rightarrow>
          if result \<noteq> PWM_SUCCESS then Some (result, s1) else duty_loop s1 cs)"

definition SetDutyCycleMultiple ::
  "Pca9685Pwm \<Rightarrow> 8 word list option \<Rightarrow> float32 list option \<Rightarrow> 8 word
     \<Rightarrow> (HfPwmErr \<times> Pca9685Pwm) option" where
  "SetDutyCycleMultiple s channel_ids duty_cycles num_channels =
     (case (channel_ids, duty_cycles) of
        (Some ids, Some ds) \<Rightarrow>
          if num_channels = 0 then Some (PWM_INVALID_ARGUMENT, s)
          else duty_loop s (zip (take (unat num_channels) ids) (take (unat num_channels) ds))
      | _ \<Rightarrow> Some (PWM_INVALID_ARGUMENT, s))"

section \<open>Device-specific operations\<close>

definition SetOutputEnable :: "Pca9685Pwm \<Rightarrow> bool \<Rightarrow> HfPwmErr \<times> Pca9685Pwm" where
  "SetOutputEnable s enabled =
     (if output_enable_pin s < 0 then (PWM_NOT_SUPPORTED, s) else (PWM_SUCCESS, s))"

definition ConfigureExternalClock :: "Pca9685Pwm \<Rightarrow> 32 word \<Rightarrow> HfPwmErr \<times> Pca9685Pwm" where
  "ConfigureExternalClock s external_clock_freq =
     (if \<not> is_initialized s then (PWM_NOT_INITIALIZED, s)
      else case ReadRegister s MODE1 of
             (Inl e, s1) \<Rightarrow> (e, s1)
           | (Inr mode1, s1) \<Rightarrow> WriteRegister s1 MODE1 (mode1 OR EXTCLK))"

definition SetOutputDriver :: "Pca9685Pwm \<Rightarrow> bool \<Rightarrow> HfPwmErr \<times> Pca9685Pwm" where
  "SetOutputDriver s totem_pole =
     (if \<not> is_initialized s then (PWM_NOT_INITIALIZED, s)
      else case ReadRegister s MODE2 of
             (Inl e, s1) \<Rightarrow> (e, s1)
           | (Inr mode2, s1) \<Rightarrow>
               WriteRegister s1 MODE2
                 (if totem_pole then mode2 OR OUTDRV else mode2 AND NOT OUTDRV))"

definition SetOutputInvert :: "Pca9685Pwm \<Rightarrow> bool \<Rightarrow> HfPwmErr \<times> Pca9685Pwm" where
  "SetOutputInvert s inverted =
     (if \<not> is_initialized s then (PWM_NOT_INITIALIZED, s)
      else case ReadRegister s MODE2 of
             (Inl e, s1) \<Rightarrow> (e, s1)
           | (Inr mode2, s1) \<Rightarrow>
               WriteRegister s1 MODE2
                 (if inverted then mode2 OR INVRT else mode2 AND NOT INVRT))"

text \<open>
  The operations the device does not support (\<open>SetPhase\<close>, \<open>ConfigureFade\<close>, \<open>StartFade\<close>,
  \<open>ConfigureComplementary\<close>, \<open>SetDeadTime\<close>, \<open>RegisterCallback\<close>, \<open>UnregisterCallback\<close>)
  all have the same body, which reads none of their arguments.
\<close>

definition not_supported :: "Pca9685Pwm \<Rightarrow> HfPwmErr \<times> Pca9685Pwm" where
  "not_supported s = (PWM_NOT_SUPPORTED, s)"

section \<open>Notions used in the statements, and fixtures for concrete runs\<close>

text \<open>The prescale the formula gives in exact arithmetic, for a frequency \<open>n\<close> in Hz.\<close>

definition ideal_prescale :: "nat \<Rightarrow> int" where
  "ideal_prescale n = round_half_away (25000000 / (4096 * of_nat n) - 1)"

text \<open>
  The four register writes that set the counters of a channel: the registers
  \<open>LEDn_ON_L\<close>, \<open>LEDn_ON_H\<close>, \<open>LEDn_OFF_L\<close>, \<open>LEDn_OFF_H\<close> lie at \<open>0x06 + 4 * n\<close> and
  hold the low and the high byte of the on count and of the off count.
\<close>

definition timing_writes :: "8 word \<Rightarrow> 8 word \<Rightarrow> 16 word \<Rightarrow> 16 word \<Rightarrow> i2c_call list" where
  "timing_writes addr n on off =
     [BusWrite addr [0x06 + 4 * n, ucast (on AND 0xFF)],
      BusWrite addr [0x07 + 4 * n, ucast (drop_bit 8 on)],
      BusWrite addr [0x08 + 4 * n, ucast (off AND 0xFF)],
      BusWrite addr [0x09 + 4 * n, ucast (drop_bit 8 off)]]"

text \<open>
  An operation that took the driver from \<open>s\<close> to the result \<open>rs\<close> aborted at the first
  transport error: it only added calls to the transport's log, and every call it made
  that failed is the last call it made and makes it return \<open>PWM_HARDWARE_ERROR\<close>.
\<close>

definition aborts_at_first_error :: "Pca9685Pwm \<Rightarrow> HfPwmErr \<times> Pca9685Pwm \<Rightarrow> bool" where
  "aborts_at_first_error s rs =
     (\<forall>b. i2c s = Some b \<longrightarrow>
        (\<exists>b'. i2c (snd rs) = Some b' \<and> status_of b' = status_of b
           \<and> take (length (calls b)) (calls b') = calls b
           \<and> (\<forall>n. length (calls b) \<le> n \<and> n < length (calls b')
                    \<and> status_of b n \<noteq> I2C_SUCCESS
                  \<longrightarrow> Suc n = length (calls b') \<and> fst rs = PWM_HARDWARE_ERROR)))"

text \<open>The same for an operation whose result may be undefined.\<close>

definition aborts_opt :: "Pca9685Pwm \<Rightarrow> (HfPwmErr \<times> Pca9685Pwm) option \<Rightarrow> bool" where
  "aborts_opt s x = (\<forall>rs. x = Some rs \<longrightarrow> aborts_at_first_error s rs)"

text \<open>
  The transport calls made when the calls of a list are attempted in order, beginning
  with call number \<open>n\<close>, and the first one that fails ends the attempt.
\<close>

fun issued :: "(nat \<Rightarrow> HfI2cErr) \<Rightarrow> nat \<Rightarrow> i2c_call list \<Rightarrow> i2c_call list" where
  "issued st n [] = []"
| "issued st n (c # cs) = c # (if st n = I2C_SUCCESS then issued st (Suc n) cs else [])"

text \<open>
  The transport calls of a step that stops the listed channels one after the other,
  whatever the outcome of the channels before: for each channel the writes of the counts
  \<open>(0, 4095)\<close> up to the first that fails.
\<close>

fun stop_all_calls :: "(nat \<Rightarrow> HfI2cErr) \<Rightarrow> nat \<Rightarrow> 8 word \<Rightarrow> nat list \<Rightarrow> i2c_call list" where
  "stop_all_calls st n addr [] = []"
| "stop_all_calls st n addr (i # rest) =
     (let ws = issued st n (timing_writes addr (of_nat i) 0 4095)
      in ws @ stop_all_calls st (n + length ws) addr rest)"

text \<open>
  The transport calls of a shutdown that stops every channel, puts the device to sleep
  and deinitializes the transport, carrying on whatever each step returned: the stop of
  the channels 0 to 15, the read of \<open>MODE1\<close> and, if the read succeeded, the write of
  \<open>MODE1\<close> with the sleep bit set, then the transport's \<open>Deinitialize\<close>.
\<close>

definition Deinitialize_calls :: "BaseI2c \<Rightarrow> 8 word \<Rightarrow> i2c_call list" where
  "Deinitialize_calls b addr =
     (let n = length (calls b);
          stops = stop_all_calls (status_of b) n addr [0..<16];
          m = n + length stops;
          sleep = issued (status_of b) m
                    [BusWriteRead addr [MODE1] 1, BusWrite addr [MODE1, byte_of b m OR SLEEP]]
      in stops @ sleep @ [BusDeinitialize])"

text \<open>
  Applying a single-channel operation to each element of a list in order succeeds every
  time and takes the driver from \<open>s\<close> to \<open>s'\<close>.
\<close>

fun each_succeeds ::
  "(Pca9685Pwm \<Rightarrow> 'a \<Rightarrow> (HfPwmErr \<times> Pca9685Pwm) option) \<Rightarrow> Pca9685Pwm \<Rightarrow> 'a list
     \<Rightarrow> Pca9685Pwm \<Rightarrow> bool" where
  "each_succeeds op s [] s' = (s' = s)"
| "each_succeeds op s (x # xs) s' =
     (\<exists>s1. op s x = Some (PWM_SUCCESS, s1) \<and> each_succeeds op s1 xs s')"

text \<open>Invariant I1: every stored on and off count fits 12 bits.\<close>

definition timing_in_range :: "Pca9685Pwm \<Rightarrow> bool" where
  "timing_in_range s = list_all (\<lambda>c. on_time c \<le> 4095 \<and> off_time c \<le> 4095) (channels s)"

text \<open>
  The public operations with their arguments, and the driver after a call and after a
  sequence of calls (\<open>None\<close> where a call has undefined behaviour). The seven unsupported
  operations are one case.
\<close>

datatype pwm_call =
    Call_Initialize
  | Call_Deinitialize
  | Call_ConfigureChannel "8 word" PwmChannelConfig
  | Call_SetDutyCycle "8 word" float32
  | Call_SetFrequency "8 word" "32 word"
  | Call_Start "8 word"
  | Call_Stop "8 word"
  | Call_GetDutyCycle "8 word"
  | Call_GetFrequency "8 word"
  | Call_IsChannelActive "8 word"
  | Call_GetMaxChannels
  | Call_NotSupported
  | Call_StartMultiple "8 word list option" "8 word"
  | Call_StopMultiple "8 word list option" "8 word"
  | Call_SetDutyCycleMultiple "8 word list option" "float32 list option" "8 word"
  | Call_SetOutputEnable bool
  | Call_ConfigureExternalClock "32 word"
  | Call_SetOutputDriver bool
  | Call_SetOutputInvert bool
  | Call_Sleep
  | Call_Wakeup

fun apply_call :: "Pca9685Pwm \<Rightarrow> pwm_call \<Rightarrow> Pca9685Pwm option" where
  "apply_call s Call_Initialize = map_option snd (Initialize s)"
| "apply_call s Call_Deinitialize = Some (snd (Deinitialize s))"
| "apply_call s (Call_ConfigureChannel c config) = map_option snd (ConfigureChannel s c config)"
| "apply_call s (Call_SetDutyCycle c d) = map_option snd (SetDutyCycle s c d)"
| "apply_call s (Call_SetFrequency c f) = map_option snd (SetFrequency s c f)"
| "apply_call s (Call_Start c) = Some (snd (Start s c))"
| "apply_call s (Call_Stop c) = Some (snd (Stop s c))"
| "apply_call s (Call_GetDutyCycle c) = Some (snd (GetDutyCycle s c))"
| "apply_call s (Call_GetFrequency c) = Some (snd (GetFrequency s c))"
| "apply_call s (Call_IsChannelActive c) = Some (snd (IsChannelActive s c))"
| "apply_call s Call_GetMaxChannels = Some (snd (GetMaxChannels s))"
| "apply_call s Call_NotSupported = Some (snd (not_supported s))"
| "apply_call s (Call_StartMultiple ids n) = Some (snd (StartMultiple s ids n))"
| "apply_call s (Call_StopMultiple ids n) = Some (snd (StopMultiple s ids n))"
| "apply_call s (Call_SetDutyCycleMultiple ids ds n) =
     map_option snd (SetDutyCycleMultiple s ids ds n)"
| "apply_call s (Call_SetOutputEnable e) = Some (snd (SetOutputEnable s e))"
| "apply_call s (Call_ConfigureExternalClock f) = Some (snd (ConfigureExternalClock s f))"
| "apply_call s (Call_SetOutputDriver t) = Some (snd (SetOutputDriver s t))"
| "apply_call s (Call_SetOutputInvert i) = Some (snd (SetOutputInvert s i))"
| "apply_call s Call_Sleep = Some (snd (Sleep s))"
| "apply_call s Call_Wakeup = Some (snd (Wakeup s))"

fun run_calls :: "Pca9685Pwm \<Rightarrow> pwm_call list \<Rightarrow> Pca9685Pwm option" where
  "run_calls s [] = Some s"
| "run_calls s (c # cs) = (case apply_call s c of None \<Rightarrow> None | Some s' \<Rightarrow> run_calls s' cs)"

text \<open>A call carries no NaN as duty cycle.\<close>

fun nan_free :: "pwm_call \<Rightarrow> bool" where
  "nan_free (Call_ConfigureChannel c config) = (initial_duty_cycle config \<noteq> NaN)"
| "nan_free (Call_SetDutyCycle c d) = (d \<noteq> NaN)"
| "nan_free (Call_SetDutyCycleMultiple ids ds n) =
     (case ds of None \<Rightarrow> True | Some xs \<Rightarrow> NaN \<notin> set xs)"
| "nan_free _ = True"

text \<open>A transport on which every call succeeds and every read delivers 0.\<close>

definition ok_bus :: BaseI2c where
  "ok_bus = \<lparr>status_of = (\<lambda>_. I2C_SUCCESS), byte_of = (\<lambda>_. 0), calls = []\<rparr>"

text \<open>A transport on which every call fails.\<close>

definition bad_bus :: BaseI2c where
  "bad_bus = \<lparr>status_of = (\<lambda>_. I2C_FAILURE), byte_of = (\<lambda>_. 0), calls = []\<rparr>"

text \<open>A transport on which the third call fails and every other call succeeds.\<close>

definition third_call_fails :: BaseI2c where
  "third_call_fails =
     \<lparr>status_of = (\<lambda>n. if n = 2 then I2C_FAILURE else I2C_SUCCESS),
      byte_of = (\<lambda>_. 0), calls = []\<rparr>"

text \<open>A freshly constructed driver at the default address, without output-enable pin.\<close>

definition fresh_driver :: Pca9685Pwm where
  "fresh_driver = Pca9685Pwm_new (Some ok_bus) 0x40 (- 1)"

text \<open>
  The same driver with the initialized flag set: the state that statements about an
  initialized driver speak of (the code itself does not reach it, see C1 and X3).
\<close>

definition ready_driver :: Pca9685Pwm where
  "ready_driver = fresh_driver\<lparr>is_initialized := True\<rparr>"

section \<open>Initialization\<close>

text \<open>
  C1 (the code departs from the claim). The claim: on a driver with a transport whose
  calls all succeed, the first \<open>Initialize\<close> returns success and leaves the driver
  initialized. The code: \<open>Initialize\<close> calls \<open>SetFrequency\<close> before it sets the
  initialized flag, and \<open>SetFrequency\<close> begins by checking that flag. On every
  uninitialized driver whose transport calls all succeed, \<open>Initialize\<close> therefore returns
  \<open>PWM_NOT_INITIALIZED\<close> after the transport's own initialization and the broadcast reset,
  writes no prescale or mode register, and leaves the driver uninitialized.
\<close>

theorem Initialize_first_call_not_initialized:
  assumes "\<not> is_initialized s"
    and "i2c s = Some b"
    and "\<forall>n. status_of b n = I2C_SUCCESS"
  shows "\<exists>s'. Initialize s = Some (PWM_NOT_INITIALIZED, s')
           \<and> \<not> is_initialized s'
           \<and> i2c s' = Some (b\<lparr>calls := calls b @ [BusInitialize, BusWrite 0x00 [0x00, 0x06]]\<rparr>)"
  using assms
  by (simp add: Initialize_def i2c_Initialize_def i2c_do_def Reset_def i2c_Write_def
      SetFrequency_def Let_def)

theorem Initialize_first_call_not_initialized_witness:
  "\<exists>s'. Initialize fresh_driver = Some (PWM_NOT_INITIALIZED, s')
         \<and> \<not> is_initialized s'
         \<and> i2c s' = Some (ok_bus\<lparr>calls := [BusInitialize, BusWrite 0x00 [0x00, 0x06]]\<rparr>)"
  using Initialize_first_call_not_initialized [of fresh_driver ok_bus]
  by (simp add: fresh_driver_def Pca9685Pwm_new_def ok_bus_def)

section \<open>Channel validation\<close>

text \<open>
  C2 (amended). The claim says that a channel index of 16 or more gives
  \<open>PWM_INVALID_CHANNEL\<close> whether or not the driver is initialized. Every channel
  operation checks the initialized flag first: with a channel index of 16 or more it
  returns \<open>PWM_INVALID_CHANNEL\<close> on an initialized driver and \<open>PWM_NOT_INITIALIZED\<close> on
  an uninitialized one, and in both cases leaves the driver and the transport untouched.
\<close>

theorem invalid_channel_checked_after_initialization:
  assumes "16 \<le> channel_id"
  shows "ConfigureChannel s channel_id config
           = Some (if is_initialized s then PWM_INVALID_CHANNEL else PWM_NOT_INITIALIZED, s)
       \<and> SetDutyCycle s channel_id d
           = Some (if is_initialized s then PWM_INVALID_CHANNEL else PWM_NOT_INITIALIZED, s)
       \<and> SetFrequency s channel_id freq
           = Some (if is_initialized s then PWM_INVALID_CHANNEL else PWM_NOT_INITIALIZED, s)
       \<and> Start s channel_id
           = (if is_initialized s then PWM_INVALID_CHANNEL else PWM_NOT_INITIALIZED, s)
       \<and> Stop s channel_id
           = (if is_initialized s then PWM_INVALID_CHANNEL else PWM_NOT_INITIALIZED, s)
       \<and> GetDutyCycle s channel_id
           = (Inl (if is_initialized s then PWM_INVALID_CHANNEL else PWM_NOT_INITIALIZED), s)
       \<and> GetFrequency s channel_id
           = (Inl (if is_initialized s then PWM_INVALID_CHANNEL else PWM_NOT_INITIALIZED), s)"
proof -
  from assms have "\<not> IsValidChannel channel_id"
    by (simp add: IsValidChannel_def MAX_CHANNELS_def not_less)
  then show ?thesis
    by (simp add: ConfigureChannel_def SetDutyCycle_def SetFrequency_def Start_def Stop_def
        GetDutyCycle_def GetFrequency_def)
qed

theorem invalid_channel_checked_after_initialization_witness:
  "(16 :: 8 word) \<le> 16
   \<and> SetDutyCycle ready_driver 16 (Finite (1 / 2)) = Some (PWM_INVALID_CHANNEL, ready_driver)
   \<and> Start ready_driver 16 = (PWM_INVALID_CHANNEL, ready_driver)
   \<and> GetFrequency ready_driver 16 = (Inl PWM_INVALID_CHANNEL, ready_driver)
   \<and> Stop fresh_driver 16 = (PWM_NOT_INITIALIZED, fresh_driver)"
  using invalid_channel_checked_after_initialization [of 16 ready_driver _ "Finite (1 / 2)"]
    invalid_channel_checked_after_initialization [of 16 fresh_driver]
  by (simp add: ready_driver_def fresh_driver_def Pca9685Pwm_new_def)

text \<open>The claim as stated fails on the freshly constructed driver at channel 16.\<close>

theorem invalid_channel_uninitialized_counterexample:
  "SetDutyCycle fresh_driver 16 (Finite (1 / 2)) = Some (PWM_NOT_INITIALIZED, fresh_driver)
   \<and> Start fresh_driver 16 = (PWM_NOT_INITIALIZED, fresh_driver)
   \<and> GetDutyCycle fresh_driver 16 = (Inl PWM_NOT_INITIALIZED, fresh_driver)"
  by (simp add: SetDutyCycle_def Start_def GetDutyCycle_def fresh_driver_def Pca9685Pwm_new_def)

text \<open>
  C10. \<open>IsChannelActive\<close> returns a plain boolean: false on an uninitialized driver and
  for a channel index of 16 or more, the stored flag of the channel otherwise. It returns
  the driver as it found it, transport included.
\<close>

theorem IsChannelActive_total:
  "IsChannelActive s channel_id
     = (is_initialized s \<and> channel_id < 16 \<and> is_active (channels s ! unat channel_id), s)"
  by (auto simp add: IsChannelActive_def IsValidChannel_def MAX_CHANNELS_def)

theorem IsChannelActive_total_witness:
  "IsChannelActive fresh_driver 3 = (False, fresh_driver)
   \<and> IsChannelActive ready_driver 16 = (False, ready_driver)
   \<and> IsChannelActive ready_driver 200 = (False, ready_driver)
   \<and> IsChannelActive ready_driver 3 = (False, ready_driver)
   \<and> fst (IsChannelActive (snd (Start ready_driver 3)) 3)"
  using IsChannelActive_total [of fresh_driver 3] IsChannelActive_total [of ready_driver 16]
    IsChannelActive_total [of ready_driver 200] IsChannelActive_total [of ready_driver 3]
    IsChannelActive_total [of "snd (Start ready_driver 3)" 3]
  apply (simp add: ready_driver_def fresh_driver_def Pca9685Pwm_new_def)
  apply (simp add: Start_def IsValidChannel_def MAX_CHANNELS_def SetChannelTiming_def
      WriteRegister_def i2c_Write_def i2c_do_def ok_bus_def Let_def ChannelState_init_def)
  done

section \<open>Rounding to single precision\<close>

lemma two_powi_less_cancel: "(2::rat) powi m < 2 powi n \<Longrightarrow> m < n"
  using power_int_increasing [of n m "2::rat"] by (cases "m < n") auto

lemma bitlen_rat_bounds:
  assumes "0 < p"
  shows "(2::rat) powi (bitlen p - 1) \<le> of_int p" and "of_int p < (2::rat) powi (bitlen p)"
proof -
  from assms have b1: "1 \<le> bitlen p"
    using bitlen_eq_zero_iff [of p] bitlen_nonneg [of p] by linarith
  from bitlen_bounds [OF assms]
  have lo: "2 ^ nat (bitlen p - 1) \<le> p" and hi: "p < 2 ^ nat (bitlen p)" by simp_all
  have "(2::rat) powi (bitlen p - 1) = of_int (2 ^ nat (bitlen p - 1))"
    using b1 by (simp add: power_int_nonneg_exp)
  also have "\<dots> \<le> of_int p" using lo by (simp only: of_int_le_iff)
  finally show "(2::rat) powi (bitlen p - 1) \<le> of_int p" .
  have "of_int p < (of_int (2 ^ nat (bitlen p)) :: rat)" using hi by (simp only: of_int_less_iff)
  also have "\<dots> = 2 powi (bitlen p)"
    using b1 by (simp add: power_int_nonneg_exp)
  finally show "of_int p < (2::rat) powi (bitlen p)" .
qed

lemma ilog2_bounds:
  assumes "0 < x"
  shows "2 powi (ilog2 x) \<le> x" and "x < 2 powi (ilog2 x + 1)"
proof -
  obtain p q where pq: "quotient_of x = (p, q)" by (cases "quotient_of x")
  then have q: "0 < q" and x: "x = of_int p / of_int q"
    by (auto dest: quotient_of_denom_pos quotient_of_div)
  with assms have p: "0 < p" by (simp add: zero_less_divide_iff)
  define e where "e = bitlen p - bitlen q"
  have qr: "(0::rat) < of_int q" using q by simp
  have "x < 2 powi (bitlen p) / of_int q"
    unfolding x using bitlen_rat_bounds(2) [OF p] qr by (simp add: divide_strict_right_mono)
  also have "\<dots> \<le> 2 powi (bitlen p) / 2 powi (bitlen q - 1)"
    using bitlen_rat_bounds(1) [OF q] by (intro divide_left_mono) (auto simp: q intro!: mult_pos_pos)
  also have "\<dots> = 2 powi (e + 1)"
    by (simp add: e_def power_int_diff [symmetric] algebra_simps)
  finally have hi: "x < 2 powi (e + 1)" .
  have "(2::rat) powi (e - 1) = 2 powi (bitlen p - 1) / 2 powi (bitlen q)"
    by (simp add: e_def power_int_diff [symmetric] algebra_simps)
  also have "\<dots> \<le> of_int p / 2 powi (bitlen q)"
    using bitlen_rat_bounds(1) [OF p] by (simp add: divide_right_mono)
  also have "\<dots> \<le> x"
    unfolding x using bitlen_rat_bounds(2) [OF q] p qr
    by (intro divide_left_mono) (auto simp: less_imp_le)
  finally have lo: "2 powi (e - 1) \<le> x" .
  have il: "ilog2 x = (if 2 powi e \<le> x then e else e - 1)"
    by (simp add: ilog2_def pq e_def Let_def)
  show "2 powi (ilog2 x) \<le> x" using lo by (simp add: il)
  show "x < 2 powi (ilog2 x + 1)" using hi by (auto simp add: il not_le)
qed

lemma ilog2_unique:
  assumes "0 < x" "2 powi e \<le> x" "x < 2 powi (e + 1)"
  shows "ilog2 x = e"
proof -
  from ilog2_bounds [OF assms(1)] assms(2,3)
  have "(2::rat) powi (ilog2 x) < 2 powi (e + 1)" "(2::rat) powi e < 2 powi (ilog2 x + 1)"
    by linarith+
  then have "ilog2 x < e + 1" "e < ilog2 x + 1" by (auto dest: two_powi_less_cancel)
  then show ?thesis by simp
qed

lemma ilog2_less:
  assumes "0 < x" "x < 2 powi n"
  shows "ilog2 x < n"
  using ilog2_bounds(1) [OF assms(1)] assms(2) two_powi_less_cancel [of "ilog2 x" n] by linarith

lemma ilog2_ge:
  assumes "0 < x" "2 powi n \<le> x"
  shows "n \<le> ilog2 x"
  using ilog2_bounds(2) [OF assms(1)] assms(2) two_powi_less_cancel [of n "ilog2 x + 1"] by linarith

lemma round_half_even_of_int [simp]: "round_half_even (of_int n) = n"
  by (simp add: round_half_even_def)

lemma round_half_even_error: "\<bar>of_int (round_half_even x) - x\<bar> \<le> 1 / 2"
proof -
  have "of_int \<lfloor>x\<rfloor> \<le> x" "x < of_int \<lfloor>x\<rfloor> + 1" by linarith+
  then show ?thesis
    by (auto simp add: round_half_even_def Let_def abs_le_iff)
qed

lemma round_half_even_le:
  assumes "x \<le> of_int n"
  shows "round_half_even x \<le> n"
proof (cases "x = of_int n")
  case True
  then show ?thesis by simp
next
  case False
  with assms have "x < of_int n" by simp
  then have "\<lfloor>x\<rfloor> < n" by (simp add: floor_less_iff)
  then show ?thesis by (auto simp add: round_half_even_def Let_def)
qed

lemma round_half_even_ge:
  assumes "of_int n \<le> x"
  shows "n \<le> round_half_even x"
proof -
  from assms have "n \<le> \<lfloor>x\<rfloor>" by (simp add: le_floor_iff)
  then show ?thesis by (auto simp add: round_half_even_def Let_def)
qed

lemma quantum_le:
  assumes "a = of_int k * 2 powi u" "0 < k" "k < 2 ^ 24" "- 149 \<le> u" "0 < x" "x \<le> a"
  shows "max (ilog2 x - 23) (- 149) \<le> u"
proof -
  have "of_int k < (2::rat) ^ 24" using assms(3) by (metis of_int_less_numeral_power_cancel_iff)
  then have "a < 2 ^ 24 * 2 powi u"
    unfolding assms(1) by (simp add: mult_strict_right_mono)
  also have "\<dots> = 2 powi (24 + u)"
    by (simp add: power_int_add)
  finally have "x < 2 powi (24 + u)" using assms(6) by simp
  from ilog2_less [OF assms(5) this] assms(4) show ?thesis by simp
qed

lemma on_grid:
  assumes "t \<le> u"
  shows "of_int k * 2 powi u / 2 powi t = (of_int (k * 2 ^ nat (u - t)) :: rat)"
proof -
  have "(2::rat) powi u / 2 powi t = 2 powi (u - t)" by (simp add: power_int_diff)
  also have "\<dots> = 2 ^ nat (u - t)" using assms by (simp add: power_int_nonneg_exp)
  finally have h: "(2::rat) powi u / 2 powi t = 2 ^ nat (u - t)" .
  have "of_int k * 2 powi u / 2 powi t = of_int k * ((2::rat) powi u / 2 powi t)" by simp
  also have "\<dots> = of_int k * 2 ^ nat (u - t)" by (simp only: h)
  also have "\<dots> = of_int (k * 2 ^ nat (u - t))" by simp
  finally show ?thesis .
qed

lemma fl32_exact_pos:
  assumes "x = of_int k * 2 powi u" "0 < k" "k < 2 ^ 24" "- 149 \<le> u" "x < 2 ^ 128"
  shows "fl32 x = Finite x"
proof -
  have xpos: "0 < x" unfolding assms(1) using assms(2) by (simp add: zero_less_mult_iff)
  define t where "t = max (ilog2 x - 23) (- 149)"
  have tu: "t \<le> u" unfolding t_def by (rule quantum_le [OF assms(1-4) xpos]) simp
  have g: "x / 2 powi t = of_int (k * 2 ^ nat (u - t))"
    unfolding assms(1) by (rule on_grid [OF tu])
  have "of_int (round_half_even (x / 2 powi t)) * 2 powi t = x / 2 powi t * 2 powi t"
    by (simp only: g round_half_even_of_int)
  also have "\<dots> = x" by simp
  finally have "of_int (round_half_even (x / 2 powi t)) * 2 powi t = x" .
  then show ?thesis
    using xpos assms(5) by (simp add: fl32_def Let_def t_def [symmetric])
qed

lemma fl32_le:
  assumes "0 < x" "x \<le> a" "a = of_int k * 2 powi u" "0 < k" "k < 2 ^ 24" "- 149 \<le> u" "a < 2 ^ 128"
  shows "\<exists>y. fl32 x = Finite y \<and> 0 \<le> y \<and> y \<le> a"
proof -
  define t where "t = max (ilog2 x - 23) (- 149)"
  define y where "y = of_int (round_half_even (x / 2 powi t)) * (2::rat) powi t"
  have tu: "t \<le> u" unfolding t_def by (rule quantum_le [OF assms(3-6) assms(1,2)])
  have g: "a / 2 powi t = of_int (k * 2 ^ nat (u - t))"
    unfolding assms(3) by (rule on_grid [OF tu])
  have "x / 2 powi t \<le> a / 2 powi t" using assms(2) by (simp add: divide_right_mono)
  then have "round_half_even (x / 2 powi t) \<le> k * 2 ^ nat (u - t)"
    unfolding g by (rule round_half_even_le)
  then have "(of_int (round_half_even (x / 2 powi t)) :: rat) \<le> of_int (k * 2 ^ nat (u - t))"
    by (simp only: of_int_le_iff)
  then have "y \<le> a / 2 powi t * 2 powi t"
    unfolding y_def g by (intro mult_right_mono) auto
  then have ya: "y \<le> a" by simp
  have "of_int 0 \<le> x / 2 powi t" using assms(1) by simp
  then have "0 \<le> round_half_even (x / 2 powi t)" by (rule round_half_even_ge)
  then have y0: "0 \<le> y" by (simp add: y_def)
  from ya assms(7) have "\<not> 2 ^ 128 \<le> y" by simp
  then have "fl32 x = Finite y"
    using assms(1) by (simp add: fl32_def Let_def t_def [symmetric] y_def [symmetric])
  with y0 ya show ?thesis by blast
qed

lemma fl32_rel_error:
  assumes "2 powi (- 126) \<le> x" "x < 2 powi 127"
  shows "\<exists>y. fl32 x = Finite y \<and> \<bar>y - x\<bar> \<le> x / 2 ^ 24"
proof -
  have xpos: "0 < x" using assms(1) zero_less_power_int [of "2::rat" "- 126"] by linarith
  define e where "e = ilog2 x"
  have e126: "- 126 \<le> e" unfolding e_def by (rule ilog2_ge [OF xpos assms(1)])
  have e127: "e < 127" unfolding e_def by (rule ilog2_less [OF xpos assms(2)])
  define t where "t = e - 23"
  have t: "max (ilog2 x - 23) (- 149) = t" using e126 by (simp add: t_def e_def)
  define y where "y = of_int (round_half_even (x / 2 powi t)) * (2::rat) powi t"
  have pt: "(0::rat) < 2 powi t" by simp
  have "y - x = (of_int (round_half_even (x / 2 powi t)) - x / 2 powi t) * 2 powi t"
    by (simp add: y_def left_diff_distrib)
  then have "\<bar>y - x\<bar> = \<bar>of_int (round_half_even (x / 2 powi t)) - x / 2 powi t\<bar> * \<bar>2 powi t\<bar>"
    by (simp only: abs_mult)
  also have "\<dots> = \<bar>of_int (round_half_even (x / 2 powi t)) - x / 2 powi t\<bar> * 2 powi t"
    by simp
  also have "\<dots> \<le> 1 / 2 * 2 powi t"
    by (intro mult_right_mono round_half_even_error) simp
  also have "\<dots> = 2 powi e / 2 ^ 24"
    by (simp add: t_def power_int_diff)
  also have "\<dots> \<le> x / 2 ^ 24"
    using ilog2_bounds(1) [OF xpos] by (simp add: e_def divide_right_mono)
  finally have err: "\<bar>y - x\<bar> \<le> x / 2 ^ 24" .
  have "y - x \<le> \<bar>y - x\<bar>" by simp
  with err have "y \<le> x + x / 2 ^ 24" by linarith
  also have "\<dots> \<le> 2 * x" using xpos by simp
  also have "\<dots> < 2 * 2 powi 127" using assms(2) by simp
  also have "\<dots> = 2 ^ 128" by simp
  finally have "\<not> 2 ^ 128 \<le> y" by simp
  then have "fl32 x = Finite y"
    using xpos by (simp add: fl32_def Let_def t y_def [symmetric])
  with err show ?thesis by blast
qed

lemma fl32_ge_int:
  assumes "0 < x" "x < 2 ^ 24" "of_int n \<le> x" "fl32 x = Finite y"
  shows "of_int n \<le> y"
proof -
  define t where "t = max (ilog2 x - 23) (- 149)"
  have "x < 2 powi 24" using assms(2) by simp
  from ilog2_less [OF assms(1) this] have t0: "t \<le> 0" by (simp add: t_def)
  have g: "of_int n / 2 powi t = (of_int (n * 2 ^ nat (0 - t)) :: rat)"
    using on_grid [OF t0, of n] by simp
  have "of_int n / 2 powi t \<le> x / 2 powi t" using assms(3) by (simp add: divide_right_mono)
  then have "n * 2 ^ nat (0 - t) \<le> round_half_even (x / 2 powi t)"
    unfolding g by (rule round_half_even_ge)
  then have "(of_int (n * 2 ^ nat (0 - t)) :: rat) \<le> of_int (round_half_even (x / 2 powi t))"
    by (simp only: of_int_le_iff)
  then have "(of_int n :: rat) / 2 powi t * 2 powi t
               \<le> of_int (round_half_even (x / 2 powi t)) * 2 powi t"
    unfolding g by (intro mult_right_mono) auto
  then have "(of_int n :: rat) \<le> of_int (round_half_even (x / 2 powi t)) * 2 powi t" by simp
  moreover have "y = of_int (round_half_even (x / 2 powi t)) * 2 powi t"
    using assms(1,4) by (simp add: fl32_def Let_def t_def [symmetric] split: if_splits)
  ultimately show ?thesis by simp
qed

section \<open>The duty-cycle timing mapper\<close>

lemma fl32_of_nat:
  assumes "n < 2 ^ 24"
  shows "fl32 (of_nat n) = Finite (of_nat n)"
proof (cases "n = 0")
  case True
  then show ?thesis by (simp add: fl32_def)
next
  case False
  show ?thesis
  proof (rule fl32_exact_pos [where k = "int n" and u = 0])
    show "rat_of_nat n = rat_of_int (int n) * 2 powi 0" by simp
    show "0 < int n" using False by simp
    show "int n < 2 ^ 24" using assms by (metis of_nat_less_numeral_power_cancel_iff)
    show "- 149 \<le> (0::int)" by simp
    have "rat_of_nat n < 2 ^ 24" using assms by (metis of_nat_less_numeral_power_cancel_iff)
    then show "rat_of_nat n < 2 ^ 128" by simp
  qed
qed

lemma uint_to_float_small:
  assumes "unat w < 2 ^ 24"
  shows "uint_to_float w = Finite (of_nat (unat w))"
  unfolding uint_to_float_def by (rule fl32_of_nat [OF assms])

lemma truncate_rat_bounds:
  assumes "0 \<le> y" "y \<le> of_int n"
  shows "0 \<le> truncate_rat y" and "truncate_rat y \<le> n"
  using assms by (simp_all add: truncate_rat_def floor_le_iff)

lemma uint_to_float_MAX_PWM_VALUE: "uint_to_float MAX_PWM_VALUE = Finite 4095"
  using uint_to_float_small [of MAX_PWM_VALUE] by (simp add: MAX_PWM_VALUE_def)

lemma word16_of_int_le_4095:
  assumes "0 \<le> n" "n \<le> 4095"
  shows "(word_of_int n :: 16 word) \<le> 4095"
proof -
  have "uint (word_of_int n :: 16 word) = n"
    using assms by (simp add: uint_word_of_int take_bit_int_eq_self)
  then show ?thesis by (simp add: word_le_def assms)
qed

lemma DutyCycleToTiming_between:
  assumes "0 < a" "a < 1"
  shows "\<exists>y. fmul (Finite a) (uint_to_float MAX_PWM_VALUE) = Finite y \<and> 0 \<le> y \<and> y \<le> 4095
           \<and> DutyCycleToTiming (Finite a) = Some (0, word_of_int (truncate_rat y))"
proof -
  have x: "0 < a * 4095" "a * 4095 \<le> 4095" using assms by simp_all
  have "\<exists>y. fl32 (a * 4095) = Finite y \<and> 0 \<le> y \<and> y \<le> 4095"
    by (rule fl32_le [OF x, where k = 4095 and u = 0]) simp_all
  then obtain y where y: "fl32 (a * 4095) = Finite y" "0 \<le> y" "y \<le> 4095" by blast
  have t: "0 \<le> truncate_rat y" "truncate_rat y \<le> 4095"
    using truncate_rat_bounds [of y 4095] y(2,3) by simp_all
  then have "truncate_rat y < 2 ^ LENGTH(16)" by simp
  with t(1) have "float_to_uint (Finite y) = Some (word_of_int (truncate_rat y) :: 16 word)"
    by (simp add: float_to_uint_def Let_def)
  with y assms show ?thesis
    by (simp add: DutyCycleToTiming_def uint_to_float_MAX_PWM_VALUE fge_def)
qed

lemma DutyCycleToTiming_range:
  assumes "DutyCycleToTiming d = Some (on, off)"
  shows "on \<le> 4095 \<and> off \<le> 4095"
proof (cases d)
  case (Finite a)
  consider "a \<le> 0" | "1 \<le> a" | "0 < a" "a < 1" by linarith
  then show ?thesis
  proof cases
    case 1
    with assms Finite show ?thesis by (simp add: DutyCycleToTiming_def MAX_PWM_VALUE_def)
  next
    case 2
    with assms Finite show ?thesis by (auto simp add: DutyCycleToTiming_def MAX_PWM_VALUE_def fge_def split: if_splits)
  next
    case 3
    from DutyCycleToTiming_between [OF 3] obtain y where
      y: "0 \<le> y" "y \<le> 4095" "DutyCycleToTiming (Finite a) = Some (0, word_of_int (truncate_rat y))"
      by blast
    have "0 \<le> truncate_rat y" "truncate_rat y \<le> 4095"
      using truncate_rat_bounds [of y 4095] y(1,2) by simp_all
    then have "(word_of_int (truncate_rat y) :: 16 word) \<le> 4095" by (rule word16_of_int_le_4095)
    with assms Finite y(3) show ?thesis by simp
  qed
next
  case PlusInf
  with assms show ?thesis by (simp add: DutyCycleToTiming_def MAX_PWM_VALUE_def fge_def)
next
  case MinusInf
  with assms show ?thesis by (simp add: DutyCycleToTiming_def MAX_PWM_VALUE_def)
next
  case NaN
  with assms show ?thesis
    by (simp add: DutyCycleToTiming_def fge_def float_to_uint_def uint_to_float_MAX_PWM_VALUE)
qed

lemma DutyCycleToTiming_defined:
  assumes "d \<noteq> NaN"
  shows "\<exists>on off. DutyCycleToTiming d = Some (on, off)"
proof (cases d)
  case (Finite a)
  consider "a \<le> 0" | "1 \<le> a" | "0 < a" "a < 1" by linarith
  then show ?thesis
  proof cases
    case 1
    with Finite show ?thesis by (simp add: DutyCycleToTiming_def)
  next
    case 2
    with Finite show ?thesis by (simp add: DutyCycleToTiming_def fge_def)
  next
    case 3
    from DutyCycleToTiming_between [OF 3] Finite show ?thesis by blast
  qed
qed (use assms in \<open>simp_all add: DutyCycleToTiming_def fge_def\<close>)

lemma DutyCycleToTiming_half: "DutyCycleToTiming (Finite (1 / 2)) = Some (0, 2047)"
proof -
  have "fl32 (4095 / 2) = Finite (4095 / 2)"
    by (rule fl32_exact_pos [where k = 4095 and u = "- 1"]) (simp_all add: power_int_minus)
  moreover have "\<lfloor>(4095 :: rat) / 2\<rfloor> = 2047"
    by (rule floor_unique) simp_all
  ultimately show ?thesis
    by (simp add: DutyCycleToTiming_def fge_def uint_to_float_MAX_PWM_VALUE float_to_uint_def
        truncate_rat_def Let_def)
qed

lemma DutyCycleToTiming_between_floor:
  assumes "0 < a" "a < 1"
  shows "\<exists>off. DutyCycleToTiming (Finite a) = Some (0, off)
           \<and> \<lfloor>a * 4095\<rfloor> \<le> uint off \<and> uint off \<le> \<lfloor>a * 4095\<rfloor> + 1 \<and> uint off \<le> 4095"
proof -
  from DutyCycleToTiming_between [OF assms] obtain y where
    y: "fmul (Finite a) (uint_to_float MAX_PWM_VALUE) = Finite y" "0 \<le> y" "y \<le> 4095"
      "DutyCycleToTiming (Finite a) = Some (0, word_of_int (truncate_rat y))"
    by blast
  have fl: "fl32 (a * 4095) = Finite y"
    using y(1) by (simp add: uint_to_float_MAX_PWM_VALUE)
  have x: "0 < a * 4095" "a * 4095 < 2 ^ 24" using assms by simp_all
  have lo: "of_int \<lfloor>a * 4095\<rfloor> \<le> y"
    by (rule fl32_ge_int [OF x _ fl]) simp
  have n: "0 \<le> \<lfloor>a * 4095\<rfloor>" "\<lfloor>a * 4095\<rfloor> + 1 \<le> 4095"
    using assms by (simp_all add: floor_less_iff)
  have "\<exists>y'. fl32 (a * 4095) = Finite y' \<and> 0 \<le> y' \<and> y' \<le> of_int (\<lfloor>a * 4095\<rfloor> + 1)"
  proof (rule fl32_le [where k = "\<lfloor>a * 4095\<rfloor> + 1" and u = 0])
    show "0 < a * 4095" by (rule x(1))
    show "a * 4095 \<le> of_int (\<lfloor>a * 4095\<rfloor> + 1)" by linarith
    show "of_int (\<lfloor>a * 4095\<rfloor> + 1) = (of_int (\<lfloor>a * 4095\<rfloor> + 1) :: rat) * 2 powi 0" by simp
    show "0 < \<lfloor>a * 4095\<rfloor> + 1" using n(1) by simp
    show "\<lfloor>a * 4095\<rfloor> + 1 < 2 ^ 24" using n(2) by simp
    show "- 149 \<le> (0::int)" by simp
    have "(of_int (\<lfloor>a * 4095\<rfloor> + 1) :: rat) \<le> of_int 4095" using n(2) by (simp only: of_int_le_iff)
    then show "(of_int (\<lfloor>a * 4095\<rfloor> + 1) :: rat) < 2 ^ 128" by simp
  qed
  with fl have hi: "y \<le> of_int (\<lfloor>a * 4095\<rfloor> + 1)" by simp
  have t: "truncate_rat y = \<lfloor>y\<rfloor>" using y(2) by (simp add: truncate_rat_def)
  have f1: "\<lfloor>a * 4095\<rfloor> \<le> \<lfloor>y\<rfloor>" using lo by (simp only: le_floor_iff)
  have f2: "\<lfloor>y\<rfloor> \<le> \<lfloor>a * 4095\<rfloor> + 1" using hi by (simp only: floor_le_iff)
  have f3: "0 \<le> \<lfloor>y\<rfloor>" "\<lfloor>y\<rfloor> \<le> 4095" using f1 f2 n by linarith+
  have "uint (word_of_int \<lfloor>y\<rfloor> :: 16 word) = \<lfloor>y\<rfloor>"
    using f3 by (simp add: uint_word_of_int take_bit_int_eq_self)
  with y(4) t f1 f2 f3 show ?thesis by simp
qed

text \<open>
  C3 (amended). The claim says that a duty cycle strictly between 0 and 1 is mapped to
  \<open>(0, round(duty_cycle * 4095))\<close>. The code converts the single-precision product to
  \<open>uint16_t\<close>, which truncates towards zero. So: a duty cycle of at most 0 (also minus
  infinity) gives \<open>(0, 4095)\<close>; one of at least 1 (also plus infinity) gives \<open>(4095, 0)\<close>;
  one strictly between gives \<open>(0, off)\<close> where \<open>off\<close> is the single-precision product
  \<open>duty_cycle * 4095.0f\<close> truncated, which is the floor of the exact product or, when
  rounding the product reaches the next integer, one more, and at most 4095; at 0.5 the
  off count is 2047, one below 2048.
\<close>

theorem DutyCycleToTiming_truncates:
  "(fle d (Finite 0) \<longrightarrow> DutyCycleToTiming d = Some (0, 4095))
   \<and> (fge d (Finite 1) \<longrightarrow> DutyCycleToTiming d = Some (4095, 0))
   \<and> (0 < a \<and> a < 1 \<longrightarrow>
        (\<exists>y. fmul (Finite a) (uint_to_float MAX_PWM_VALUE) = Finite y \<and> 0 \<le> y \<and> y \<le> 4095
           \<and> DutyCycleToTiming (Finite a) = Some (0, word_of_int (truncate_rat y)))
        \<and> (\<exists>off. DutyCycleToTiming (Finite a) = Some (0, off)
              \<and> \<lfloor>a * 4095\<rfloor> \<le> uint off \<and> uint off \<le> \<lfloor>a * 4095\<rfloor> + 1 \<and> uint off \<le> 4095))
   \<and> DutyCycleToTiming (Finite (1 / 2)) = Some (0, 2047)"
proof -
  have "\<not> fle d (Finite 0)" if "fge d (Finite 1)"
    using that by (cases d) (simp_all add: fge_def)
  then show ?thesis
    using DutyCycleToTiming_between [of a] DutyCycleToTiming_between_floor [of a]
      DutyCycleToTiming_half
    by (auto simp add: DutyCycleToTiming_def MAX_PWM_VALUE_def)
qed

theorem DutyCycleToTiming_truncates_witness:
  "fle MinusInf (Finite 0) \<and> DutyCycleToTiming MinusInf = Some (0, 4095)
   \<and> fle (Finite 0) (Finite 0) \<and> DutyCycleToTiming (Finite 0) = Some (0, 4095)
   \<and> fge (Finite 1) (Finite 1) \<and> DutyCycleToTiming (Finite 1) = Some (4095, 0)
   \<and> (0 :: rat) < 3 / 4 \<and> (3 / 4 :: rat) < 1
   \<and> (\<exists>off. DutyCycleToTiming (Finite (3 / 4)) = Some (0, off) \<and> 3071 \<le> uint off \<and> uint off \<le> 3072)"
proof -
  have "\<lfloor>(3 / 4 :: rat) * 4095\<rfloor> = 3071"
    by (rule floor_unique) simp_all
  then show ?thesis
    using DutyCycleToTiming_truncates [of MinusInf "3 / 4"]
      DutyCycleToTiming_truncates [of "Finite 0" "3 / 4"]
      DutyCycleToTiming_truncates [of "Finite 1" "3 / 4"]
    by (auto simp add: fge_def)
qed

text \<open>
  The claim as stated fails at 0.5: the code gives 2047, rounding \<open>0.5 * 4095 = 2047.5\<close>
  to the nearest integer gives 2048.
\<close>

theorem DutyCycleToTiming_round_counterexample:
  "DutyCycleToTiming (Finite (1 / 2)) = Some (0, 2047)
   \<and> round_half_away (1 / 2 * 4095) = 2048
   \<and> round_half_even (1 / 2 * 4095) = 2048"
proof -
  have f: "\<lfloor>(4095 :: rat) / 2\<rfloor> = 2047" "\<lfloor>(4095 :: rat) / 2 + 1 / 2\<rfloor> = 2048"
    by (rule floor_unique; simp)+
  show ?thesis
    using DutyCycleToTiming_half f by (simp add: round_half_away_def round_half_even_def Let_def)
qed

section \<open>The frequency calculator\<close>

lemma floor_near_odd_fraction:
  fixes z :: rat
  assumes D: "0 < D" "even D" and N: "odd N"
    and err: "\<bar>z - of_int N / of_int D\<bar> < 1 / of_int D"
  shows "\<lfloor>z\<rfloor> = N div D"
proof (rule floor_unique)
  define k where "k = N div D"
  define r where "r = N mod D"
  have N_eq: "N = k * D + r" by (simp add: k_def r_def)
  have "odd r" unfolding r_def using D(2) N by (simp add: dvd_mod_iff)
  moreover have "0 \<le> r" "r < D" using D(1) by (simp_all add: r_def)
  ultimately have r: "1 \<le> r" "r \<le> D - 1"
    by (auto simp add: order_le_less intro: ccontr)
  have Dr: "(0::rat) < of_int D" using D(1) by simp
  have "of_int N / of_int D = (of_int k :: rat) + of_int r / of_int D"
    using Dr by (simp add: N_eq add_divide_distrib)
  moreover have "1 / of_int D \<le> (of_int r :: rat) / of_int D"
    using r(1) Dr by (simp add: divide_right_mono)
  moreover have "(of_int r :: rat) / of_int D \<le> (of_int D - 1) / of_int D"
    using r(2) Dr by (intro divide_right_mono) (simp_all flip: of_int_diff add: less_imp_le)
  moreover have "(of_int D - 1) / of_int D = 1 - 1 / (of_int D :: rat)"
    using Dr by (simp add: diff_divide_distrib)
  ultimately have "of_int k + 1 / of_int D \<le> of_int N / (of_int D :: rat)"
    "of_int N / (of_int D :: rat) \<le> of_int k + 1 - 1 / of_int D" by linarith+
  with err show "of_int (N div D) \<le> z" "z < of_int (N div D) + 1"
    unfolding k_def [symmetric] by (simp_all add: abs_less_iff)
qed

lemma ideal_prescale_eq:
  assumes "0 < n" "n \<le> 1526"
  shows "ideal_prescale n = (390625 - 32 * int n) div (64 * int n)"
proof -
  define q :: rat where "q = 25000000 / (4096 * of_nat n)"
  have npos: "(0::rat) < of_nat n" using assms(1) by simp
  have q3: "3 \<le> q"
    unfolding q_def using assms(2) npos by (simp add: pos_le_divide_eq)
  have "q - 1 / 2 = of_int (390625 - 32 * int n) / of_int (64 * int n)"
    unfolding q_def using npos by (simp add: field_simps)
  then have "\<lfloor>q - 1 / 2\<rfloor> = (390625 - 32 * int n) div (64 * int n)"
    by (simp only: floor_divide_of_int_eq)
  moreover have "q - 1 + 1 / 2 = q - 1 / 2" by simp
  ultimately show ?thesis
    using q3 by (simp add: ideal_prescale_def round_half_away_def q_def [symmetric])
qed

lemma ideal_prescale_bounds:
  assumes "24 \<le> n" "n \<le> 1526"
  shows "3 \<le> ideal_prescale n" and "ideal_prescale n \<le> 253"
proof -
  define q :: rat where "q = 25000000 / (4096 * of_nat n)"
  have npos: "(0::rat) < of_nat n" using assms(1) by simp
  have n24: "(24::rat) \<le> of_nat n" using assms(1) by (metis of_nat_numeral of_nat_le_iff)
  have n1526: "of_nat n \<le> (1526::rat)" using assms(2) by (metis of_nat_numeral of_nat_le_iff)
  have q3: "7 / 2 \<le> q"
    unfolding q_def using n1526 npos by (simp add: pos_le_divide_eq)
  have q254: "q < 509 / 2"
    unfolding q_def using n24 npos by (simp add: pos_divide_less_eq)
  have i: "ideal_prescale n = \<lfloor>q - 1 / 2\<rfloor>"
    using q3 by (simp add: ideal_prescale_def round_half_away_def q_def [symmetric])
  have "of_int 3 \<le> q - 1 / 2" using q3 by simp
  then show "3 \<le> ideal_prescale n" unfolding i by (simp only: le_floor_iff)
  have "q - 1 / 2 < of_int 254" using q254 by simp
  then have "\<lfloor>q - 1 / 2\<rfloor> < 254" by (simp only: floor_less_iff)
  then show "ideal_prescale n \<le> 253" unfolding i by simp
qed

lemma ideal_prescale_antimono:
  assumes "0 < m" "m \<le> n" "n \<le> 1526"
  shows "ideal_prescale n \<le> ideal_prescale m"
proof -
  have mpos: "(0::rat) < of_nat m" using assms(1) by simp
  have npos: "(0::rat) < of_nat n" using assms(1,2) by simp
  have mn: "(of_nat m :: rat) \<le> of_nat n" using assms(2) by simp
  have "25000000 / (4096 * of_nat n) \<le> 25000000 / (4096 * (of_nat m :: rat))"
    using mpos mn by (intro divide_left_mono) (simp_all add: npos)
  moreover have "0 \<le> 25000000 / (4096 * of_nat n) - (1::rat)"
    using npos assms(3) by (simp add: pos_le_divide_eq)
  ultimately show ?thesis
    by (simp add: ideal_prescale_def round_half_away_def floor_mono)
qed

lemma uint_to_float_INTERNAL_OSC_FREQ: "uint_to_float INTERNAL_OSC_FREQ = Finite 25000000"
proof -
  have "fl32 25000000 = Finite 25000000"
    by (rule fl32_exact_pos [where k = 390625 and u = 6]) simp_all
  then show ?thesis by (simp add: uint_to_float_def INTERNAL_OSC_FREQ_def)
qed

lemma word8_of_int_clamp:
  assumes "3 \<le> k" "k \<le> 253"
  shows "max (3 :: 8 word) (min 255 (word_of_int k)) = word_of_int k"
    and "uint (word_of_int k :: 8 word) = k"
proof -
  show u: "uint (word_of_int k :: 8 word) = k"
    using assms by (simp add: uint_word_of_int take_bit_int_eq_self)
  have "(3 :: 8 word) \<le> word_of_int k" "(word_of_int k :: 8 word) \<le> 255"
    using assms by (simp_all add: word_le_def u)
  then show "max (3 :: 8 word) (min 255 (word_of_int k)) = word_of_int k"
    by (simp add: max_def min_def)
qed

lemma CalculatePrescale_exact:
  assumes "24 \<le> unat f" "unat f \<le> 1526"
  shows "CalculatePrescale f = Some (word_of_int (ideal_prescale (unat f)))"
proof -
  define n where "n = unat f"
  define q :: rat where "q = 25000000 / (4096 * of_nat n)"
  have n: "24 \<le> n" "n \<le> 1526" using assms by (simp_all add: n_def)
  have n0: "0 < n" using n(1) by simp
  have npos: "(0::rat) < of_nat n" using n0 by simp
  have n24: "(24::rat) \<le> of_nat n" using n(1) by (metis of_nat_numeral of_nat_le_iff)
  have n1526: "of_nat n \<le> (1526::rat)" using n(2) by (metis of_nat_numeral of_nat_le_iff)
  have q3: "7 / 2 \<le> q"
    unfolding q_def using n1526 npos by (simp add: pos_le_divide_eq)
  have q254: "q < 509 / 2"
    unfolding q_def using n24 npos by (simp add: pos_divide_less_eq)
  \<comment> \<open>the divisor \<open>4096.0f * frequency_hz\<close> is exact\<close>
  have "n < 2 ^ 24" using n(2) by simp
  then have f_float: "uint_to_float f = Finite (of_nat n)"
    unfolding n_def by (rule uint_to_float_small)
  have "fl32 (4096 * of_nat n) = Finite (4096 * of_nat n)"
  proof (rule fl32_exact_pos [where k = "int n" and u = 12])
    show "4096 * rat_of_nat n = rat_of_int (int n) * 2 powi 12" by simp
    show "0 < int n" using n0 by simp
    show "int n < 2 ^ 24" using n(2) by simp
    show "4096 * rat_of_nat n < 2 ^ 128" using n1526 by simp
  qed simp
  then have divisor: "fmul (Finite 4096) (uint_to_float f) = Finite (4096 * of_nat n)"
    by (simp add: f_float)
  \<comment> \<open>the quotient, rounded\<close>
  have "\<exists>y. fl32 q = Finite y \<and> \<bar>y - q\<bar> \<le> q / 2 ^ 24"
    using q3 q254 by (intro fl32_rel_error) (simp_all add: power_int_minus)
  then obtain q1 where q1: "fl32 q = Finite q1" "\<bar>q1 - q\<bar> \<le> q / 2 ^ 24" by blast
  have quotient: "fdiv (uint_to_float INTERNAL_OSC_FREQ) (fmul (Finite 4096) (uint_to_float f)) = Finite q1"
    using npos by (simp add: uint_to_float_INTERNAL_OSC_FREQ divisor q1(1) q_def [symmetric])
  \<comment> \<open>the difference, rounded\<close>
  define z where "z = q1 - 1"
  have e1: "q1 - q \<le> q / 16777216" "q - q1 \<le> q / 16777216"
    using abs_le_D1 [OF q1(2)] abs_le_D2 [OF q1(2)] by simp_all
  have z_lo: "2 \<le> z" and z_hi: "z \<le> 2 * q" using e1 q3 by (simp_all add: z_def)
  have "\<exists>y. fl32 z = Finite y \<and> \<bar>y - z\<bar> \<le> z / 2 ^ 24"
    using z_lo z_hi q254 by (intro fl32_rel_error) (simp_all add: power_int_minus)
  then obtain z1 where z1: "fl32 z = Finite z1" "\<bar>z1 - z\<bar> \<le> z / 2 ^ 24" by blast
  have prescale_float:
    "fsub (fdiv (uint_to_float INTERNAL_OSC_FREQ) (fmul (Finite 4096) (uint_to_float f))) (Finite 1)
       = Finite z1"
    by (simp add: quotient z1(1) z_def [symmetric])
  \<comment> \<open>the two rounding errors together stay below the distance of \<open>q - 1\<close> to a half-integer\<close>
  have e2: "z1 - z \<le> z / 16777216" "z - z1 \<le> z / 16777216"
    using abs_le_D1 [OF z1(2)] abs_le_D2 [OF z1(2)] by simp_all
  have "z1 - (q - 1) < q / 390625" "- (z1 - (q - 1)) < q / 390625"
    using e1 e2 z_hi q3 by (simp_all add: z_def)
  then have total: "\<bar>z1 - (q - 1)\<bar> < q / 390625"
    by (simp only: abs_less_iff)
  have z1_pos: "0 \<le> z1" using e2 z_lo by simp
  have D: "q / 390625 = 1 / of_int (64 * int n)" unfolding q_def using npos by simp
  have ND: "q - 1 / 2 = of_int (390625 - 32 * int n) / of_int (64 * int n)"
    unfolding q_def using npos by (simp add: field_simps)
  have shift: "z1 + 1 / 2 - (q - 1 / 2) = z1 - (q - 1)" by simp
  have "\<bar>z1 + 1 / 2 - (q - 1 / 2)\<bar> < q / 390625"
    unfolding shift by (rule total)
  then have "\<bar>z1 + 1 / 2 - of_int (390625 - 32 * int n) / of_int (64 * int n)\<bar>
          < 1 / of_int (64 * int n)"
    unfolding D ND .
  then have "\<lfloor>z1 + 1 / 2\<rfloor> = (390625 - 32 * int n) div (64 * int n)"
    using n0 by (intro floor_near_odd_fraction) simp_all
  then have rounded: "round_half_away z1 = ideal_prescale n"
    using z1_pos by (simp add: round_half_away_def ideal_prescale_eq [OF n0 n(2)])
  \<comment> \<open>the conversion to \<open>uint8_t\<close> and the clamp\<close>
  note k = ideal_prescale_bounds [OF n]
  have "float_to_uint (Finite (of_int (ideal_prescale n)))
          = Some (word_of_int (ideal_prescale n) :: 8 word)"
    using k by (simp add: float_to_uint_def truncate_rat_def Let_def)
  then show ?thesis
    by (simp add: CalculatePrescale_def prescale_float rounded word8_of_int_clamp [OF k]
        n_def [symmetric])
qed

text \<open>
  C4. For two frequencies \<open>f \<le> g\<close> of the range 24 to 1526 Hz, \<open>CalculatePrescale\<close>
  is defined at both, each result is the value of the formula in exact arithmetic,
  \<open>round(25000000 / (4096 * f) - 1)\<close>, clamped to 3..255, each lies in 3..255, and the
  result at \<open>g\<close> is at most the result at \<open>f\<close>. (Take \<open>g = f\<close> for a single frequency.)
\<close>

theorem CalculatePrescale_formula_range_antimono:
  assumes "24 \<le> f" and "f \<le> g" and "g \<le> 1526"
  shows "\<exists>p q. CalculatePrescale f = Some p \<and> CalculatePrescale g = Some q
           \<and> uint p = max 3 (min 255 (ideal_prescale (unat f)))
           \<and> uint q = max 3 (min 255 (ideal_prescale (unat g)))
           \<and> 3 \<le> p \<and> p \<le> 255 \<and> 3 \<le> q \<and> q \<le> 255 \<and> q \<le> p"
proof -
  have nf: "24 \<le> unat f" "unat f \<le> unat g" "unat g \<le> 1526"
    using assms by (simp_all add: word_le_nat_alt)
  then have nf': "unat f \<le> 1526" "24 \<le> unat g" by simp_all
  note kf = ideal_prescale_bounds [OF nf(1) nf'(1)]
  note kg = ideal_prescale_bounds [OF nf'(2) nf(3)]
  have anti: "ideal_prescale (unat g) \<le> ideal_prescale (unat f)"
    using nf by (intro ideal_prescale_antimono) simp_all
  have pf: "CalculatePrescale f = Some (word_of_int (ideal_prescale (unat f)))"
    by (rule CalculatePrescale_exact [OF nf(1) nf'(1)])
  have pg: "CalculatePrescale g = Some (word_of_int (ideal_prescale (unat g)))"
    by (rule CalculatePrescale_exact [OF nf'(2) nf(3)])
  have uf: "uint (word_of_int (ideal_prescale (unat f)) :: 8 word) = ideal_prescale (unat f)"
    by (rule word8_of_int_clamp(2) [OF kf])
  have ug: "uint (word_of_int (ideal_prescale (unat g)) :: 8 word) = ideal_prescale (unat g)"
    by (rule word8_of_int_clamp(2) [OF kg])
  show ?thesis
    using kf kg anti by (simp add: pf pg uf ug word_le_def)
qed

theorem CalculatePrescale_formula_range_antimono_witness:
  "(24 :: 32 word) \<le> 24 \<and> (24 :: 32 word) \<le> 1526 \<and> (1526 :: 32 word) \<le> 1526
   \<and> (\<exists>p q. CalculatePrescale 24 = Some p \<and> CalculatePrescale 1526 = Some q
          \<and> uint p = 253 \<and> uint q = 3 \<and> q \<le> p)"
  using CalculatePrescale_formula_range_antimono [of 24 1526]
  by (auto simp add: ideal_prescale_eq)

section \<open>Register writes on a present transport\<close>

lemma WriteRegister_Some:
  assumes "i2c s = Some b"
  shows "WriteRegister s reg v =
           (if status_of b (length (calls b)) = I2C_SUCCESS then PWM_SUCCESS else PWM_HARDWARE_ERROR,
            s\<lparr>i2c := Some (b\<lparr>calls := calls b @ [BusWrite (i2c_address s) [reg, v]]\<rparr>)\<rparr>)"
  using assms by (simp add: WriteRegister_def i2c_Write_def i2c_do_def)

lemma ReadRegister_Some:
  assumes "i2c s = Some b"
  shows "ReadRegister s reg =
           (if status_of b (length (calls b)) = I2C_SUCCESS then Inr (byte_of b (length (calls b)))
            else Inl PWM_HARDWARE_ERROR,
            s\<lparr>i2c := Some (b\<lparr>calls := calls b @ [BusWriteRead (i2c_address s) [reg] 1]\<rparr>)\<rparr>)"
  using assms by (simp add: ReadRegister_def i2c_WriteRead_def i2c_do_def)

lemma high_byte: "(ucast (drop_bit 8 x AND 0xFF) :: 8 word) = ucast (drop_bit 8 (x :: 16 word))"
proof -
  have m: "(0xFF :: 16 word) = mask 8" by (simp add: mask_eq_exp_minus_1)
  show ?thesis unfolding m by (rule bit_word_eqI) (auto simp add: bit_simps)
qed

lemma SetChannelTiming_ok:
  assumes "i2c s = Some b" "\<forall>n. status_of b n = I2C_SUCCESS" "channel_id < 16"
  shows "SetChannelTiming s channel_id on off =
           (PWM_SUCCESS,
            s\<lparr>i2c := Some (b\<lparr>calls := calls b @ timing_writes (i2c_address s) channel_id on off\<rparr>)\<rparr>)"
  using assms
  by (simp add: SetChannelTiming_def IsValidChannel_def MAX_CHANNELS_def WriteRegister_Some
      timing_writes_def LED0_ON_L_def high_byte Let_def algebra_simps)

section \<open>Stop and start keep the duty cycle\<close>

text \<open>
  C7. On an initialized driver whose transport calls all succeed, for a valid channel and
  a duty cycle \<open>d\<close> in [0, 1]: \<open>SetDutyCycle\<close>, \<open>Stop\<close> and \<open>Start\<close> in this order all
  succeed; \<open>GetDutyCycle\<close> gives \<open>d\<close> after each of them; \<open>Stop\<close> writes the counters
  \<open>(0, 4095)\<close> to the device and leaves the stored duty cycle and counters alone;
  \<open>Start\<close> writes the pair that \<open>SetDutyCycle\<close> stored, the timing of \<open>d\<close>, again.
\<close>

theorem duty_cycle_survives_stop_start:
  assumes init: "is_initialized s"
    and bus: "i2c s = Some b" "\<forall>n. status_of b n = I2C_SUCCESS"
    and ch: "channel_id < 16" "length (channels s) = 16"
    and d: "fle (Finite 0) d" "fle d (Finite 1)"
  shows "\<exists>on off s1 s2 s3 b1 b2 b3.
           DutyCycleToTiming d = Some (on, off)
         \<and> SetDutyCycle s channel_id d = Some (PWM_SUCCESS, s1)
         \<and> Stop s1 channel_id = (PWM_SUCCESS, s2)
         \<and> Start s2 channel_id = (PWM_SUCCESS, s3)
         \<and> fst (GetDutyCycle s1 channel_id) = Inr d
         \<and> fst (GetDutyCycle s2 channel_id) = Inr d
         \<and> fst (GetDutyCycle s3 channel_id) = Inr d
         \<and> on_time (channels s3 ! unat channel_id) = on
         \<and> off_time (channels s3 ! unat channel_id) = off
         \<and> \<not> is_active (channels s2 ! unat channel_id)
         \<and> is_active (channels s3 ! unat channel_id)
         \<and> i2c s1 = Some b1 \<and> i2c s2 = Some b2 \<and> i2c s3 = Some b3
         \<and> calls b1 = calls b @ timing_writes (i2c_address s) channel_id on off
         \<and> calls b2 = calls b1 @ timing_writes (i2c_address s) channel_id 0 4095
         \<and> calls b3 = calls b2 @ timing_writes (i2c_address s) channel_id on off"
proof -
  from d have "d \<noteq> NaN" by (cases d) simp_all
  then obtain on off where t: "DutyCycleToTiming d = Some (on, off)"
    using DutyCycleToTiming_defined by blast
  from d have valid: "\<not> flt d (Finite 0)" "\<not> fgt d (Finite 1)"
    by (cases d; simp add: fgt_def)+
  have v: "IsValidChannel channel_id" using ch(1) by (simp add: IsValidChannel_def MAX_CHANNELS_def)
  have n: "unat channel_id < length (channels s)"
    using ch by (simp add: word_less_nat_alt)
  define b1 where "b1 = b\<lparr>calls := calls b @ timing_writes (i2c_address s) channel_id on off\<rparr>"
  define s1 where "s1 = s\<lparr>i2c := Some b1,
      channels := (channels s)[unat channel_id :=
        (channels s ! unat channel_id)\<lparr>duty_cycle := d, on_time := on, off_time := off\<rparr>]\<rparr>"
  define b2 where "b2 = b1\<lparr>calls := calls b1 @ timing_writes (i2c_address s) channel_id 0 4095\<rparr>"
  define s2 where "s2 = s1\<lparr>i2c := Some b2,
      channels := (channels s1)[unat channel_id :=
        (channels s1 ! unat channel_id)\<lparr>is_active := False\<rparr>]\<rparr>"
  define b3 where "b3 = b2\<lparr>calls := calls b2 @ timing_writes (i2c_address s) channel_id on off\<rparr>"
  define s3 where "s3 = s2\<lparr>i2c := Some b3,
      channels := (channels s2)[unat channel_id :=
        (channels s2 ! unat channel_id)\<lparr>is_active := True\<rparr>]\<rparr>"
  have ok1: "\<forall>n. status_of b1 n = I2C_SUCCESS" using bus(2) by (simp add: b1_def)
  have ok2: "\<forall>n. status_of b2 n = I2C_SUCCESS" using ok1 by (simp add: b2_def)
  have set: "SetDutyCycle s channel_id d = Some (PWM_SUCCESS, s1)"
    using init v valid t SetChannelTiming_ok [OF bus ch(1)]
    by (simp add: SetDutyCycle_def s1_def b1_def)
  have i1: "i2c s1 = Some b1" "is_initialized s1" "i2c_address s1 = i2c_address s"
    using init by (simp_all add: s1_def)
  have stop: "Stop s1 channel_id = (PWM_SUCCESS, s2)"
    using i1 v SetChannelTiming_ok [OF i1(1) ok1 ch(1)]
    by (simp add: Stop_def s2_def b2_def MAX_PWM_VALUE_def)
  have i2: "i2c s2 = Some b2" "is_initialized s2" "i2c_address s2 = i2c_address s"
    using i1 by (simp_all add: s2_def)
  have stored: "on_time (channels s2 ! unat channel_id) = on"
    "off_time (channels s2 ! unat channel_id) = off"
    using n by (simp_all add: s2_def s1_def)
  have start: "Start s2 channel_id = (PWM_SUCCESS, s3)"
    using i2 v stored SetChannelTiming_ok [OF i2(1) ok2 ch(1)]
    by (simp add: Start_def s3_def b3_def)
  have i3: "is_initialized s3" using i2 by (simp add: s3_def)
  show ?thesis
    apply (rule exI [of _ on], rule exI [of _ off])
    apply (rule exI [of _ s1], rule exI [of _ s2], rule exI [of _ s3])
    apply (rule exI [of _ b1], rule exI [of _ b2], rule exI [of _ b3])
    using t set stop start i1 i2 i3 v n
    apply (simp add: GetDutyCycle_def)
    apply (simp add: s3_def s2_def s1_def b3_def b2_def b1_def)
    done
qed

theorem duty_cycle_survives_stop_start_witness:
  "\<exists>s1 s2 s3 b3.
      SetDutyCycle ready_driver 5 (Finite (1 / 2)) = Some (PWM_SUCCESS, s1)
    \<and> Stop s1 5 = (PWM_SUCCESS, s2)
    \<and> Start s2 5 = (PWM_SUCCESS, s3)
    \<and> fst (GetDutyCycle s2 5) = Inr (Finite (1 / 2))
    \<and> fst (GetDutyCycle s3 5) = Inr (Finite (1 / 2))
    \<and> on_time (channels s3 ! 5) = 0 \<and> off_time (channels s3 ! 5) = 2047
    \<and> i2c s3 = Some b3
    \<and> calls b3 = timing_writes 0x40 5 0 2047 @ timing_writes 0x40 5 0 4095
                  @ timing_writes 0x40 5 0 2047"
  using duty_cycle_survives_stop_start [of ready_driver ok_bus 5 "Finite (1 / 2)"]
  by (auto simp add: ready_driver_def fresh_driver_def Pca9685Pwm_new_def ok_bus_def
      DutyCycleToTiming_half)

section \<open>Batch operations stop at the first failure\<close>

lemma start_loop_append:
  assumes "each_succeeds (\<lambda>t c. Some (Start t c)) s xs s'"
  shows "start_loop s (xs @ ys) = start_loop s' ys"
  using assms by (induction xs arbitrary: s) auto

lemma stop_loop_append:
  assumes "each_succeeds (\<lambda>t c. Some (Stop t c)) s xs s'"
  shows "stop_loop s (xs @ ys) = stop_loop s' ys"
  using assms by (induction xs arbitrary: s) auto

lemma duty_loop_append:
  assumes "each_succeeds (\<lambda>t (c, d). SetDutyCycle t c d) s xs s'"
  shows "duty_loop s (xs @ ys) = duty_loop s' ys"
  using assms by (induction xs arbitrary: s) auto

lemma take_split:
  assumes "k < n" "k < length xs"
  shows "take n xs = take k xs @ xs ! k # take (n - Suc k) (drop (Suc k) xs)"
proof -
  have "take n xs = take n (take k xs @ xs ! k # drop (Suc k) xs)"
    by (rule arg_cong [where f = "take n"]) (rule id_take_nth_drop [OF assms(2)])
  also have "\<dots> = take k xs @ xs ! k # take (n - Suc k) (drop (Suc k) xs)"
    using assms by (simp add: take_Cons' min_def)
  finally show ?thesis .
qed

lemma StartMultiple_all_succeed:
  assumes "n \<noteq> 0" "each_succeeds (\<lambda>t c. Some (Start t c)) s (take (unat n) ids) s'"
  shows "StartMultiple s (Some ids) n = (PWM_SUCCESS, s')"
  using assms start_loop_append [OF assms(2), of "[]"] by (simp add: StartMultiple_def)

lemma StartMultiple_first_failure:
  assumes "k < unat n" "k < length ids"
    and "each_succeeds (\<lambda>t c. Some (Start t c)) s (take k ids) s1"
    and "Start s1 (ids ! k) = (e, s2)" "e \<noteq> PWM_SUCCESS"
  shows "StartMultiple s (Some ids) n = (e, s2)"
proof -
  from assms(1) have "n \<noteq> 0" by auto
  moreover have "start_loop s (take (unat n) ids) = (e, s2)"
    unfolding take_split [OF assms(1,2)] start_loop_append [OF assms(3)]
    using assms(4,5) by simp
  ultimately show ?thesis by (simp add: StartMultiple_def)
qed

lemma StopMultiple_all_succeed:
  assumes "n \<noteq> 0" "each_succeeds (\<lambda>t c. Some (Stop t c)) s (take (unat n) ids) s'"
  shows "StopMultiple s (Some ids) n = (PWM_SUCCESS, s')"
  using assms stop_loop_append [OF assms(2), of "[]"] by (simp add: StopMultiple_def)

lemma StopMultiple_first_failure:
  assumes "k < unat n" "k < length ids"
    and "each_succeeds (\<lambda>t c. Some (Stop t c)) s (take k ids) s1"
    and "Stop s1 (ids ! k) = (e, s2)" "e \<noteq> PWM_SUCCESS"
  shows "StopMultiple s (Some ids) n = (e, s2)"
proof -
  from assms(1) have "n \<noteq> 0" by auto
  moreover have "stop_loop s (take (unat n) ids) = (e, s2)"
    unfolding take_split [OF assms(1,2)] stop_loop_append [OF assms(3)]
    using assms(4,5) by simp
  ultimately show ?thesis by (simp add: StopMultiple_def)
qed

lemma SetDutyCycleMultiple_all_succeed:
  assumes "n \<noteq> 0"
    and "each_succeeds (\<lambda>t (c, d). SetDutyCycle t c d) s
           (zip (take (unat n) ids) (take (unat n) ds)) s'"
  shows "SetDutyCycleMultiple s (Some ids) (Some ds) n = Some (PWM_SUCCESS, s')"
  using assms duty_loop_append [OF assms(2), of "[]"] by (simp add: SetDutyCycleMultiple_def)

lemma SetDutyCycleMultiple_first_failure:
  assumes "k < unat n" "k < length ids" "k < length ds"
    and "each_succeeds (\<lambda>t (c, d). SetDutyCycle t c d) s (zip (take k ids) (take k ds)) s1"
    and "SetDutyCycle s1 (ids ! k) (ds ! k) = Some (e, s2)" "e \<noteq> PWM_SUCCESS"
  shows "SetDutyCycleMultiple s (Some ids) (Some ds) n = Some (e, s2)"
proof -
  from assms(1) have n: "n \<noteq> 0" by auto
  have z: "zip (take (unat n) ids) (take (unat n) ds)
             = zip (take k ids) (take k ds) @ (ids ! k, ds ! k)
                 # zip (take (unat n - Suc k) (drop (Suc k) ids))
                       (take (unat n - Suc k) (drop (Suc k) ds))"
    unfolding take_split [OF assms(1,2)] take_split [OF assms(1,3)]
    using assms(2,3) by simp
  have "duty_loop s (zip (take (unat n) ids) (take (unat n) ds)) = Some (e, s2)"
    unfolding z duty_loop_append [OF assms(4)] using assms(5,6) by simp
  with n show ?thesis by (simp add: SetDutyCycleMultiple_def)
qed


text \<open>
  C6. A null pointer or a count of zero gives \<open>PWM_INVALID_ARGUMENT\<close> and changes
  nothing. Otherwise each batch operation applies its single-channel operation to the
  first \<open>n\<close> elements in order: if all succeed it returns success and the driver they
  lead to; if the elements before index \<open>k\<close> succeed and the operation fails at index
  \<open>k\<close>, it returns that failure and the driver as the failing call left it, with the
  earlier channels in their new state and the later ones untouched.
\<close>

theorem batch_stops_at_first_failure:
  "StartMultiple s None n = (PWM_INVALID_ARGUMENT, s)
   \<and> StartMultiple s (Some ids) 0 = (PWM_INVALID_ARGUMENT, s)
   \<and> StopMultiple s None n = (PWM_INVALID_ARGUMENT, s)
   \<and> StopMultiple s (Some ids) 0 = (PWM_INVALID_ARGUMENT, s)
   \<and> SetDutyCycleMultiple s None dp n = Some (PWM_INVALID_ARGUMENT, s)
   \<and> SetDutyCycleMultiple s ip None n = Some (PWM_INVALID_ARGUMENT, s)
   \<and> SetDutyCycleMultiple s (Some ids) (Some ds) 0 = Some (PWM_INVALID_ARGUMENT, s)
   \<and> (n \<noteq> 0 \<and> each_succeeds (\<lambda>t c. Some (Start t c)) s (take (unat n) ids) s'
        \<longrightarrow> StartMultiple s (Some ids) n = (PWM_SUCCESS, s'))
   \<and> (k < unat n \<and> k < length ids \<and> each_succeeds (\<lambda>t c. Some (Start t c)) s (take k ids) s1
        \<and> Start s1 (ids ! k) = (e, s2) \<and> e \<noteq> PWM_SUCCESS
        \<longrightarrow> StartMultiple s (Some ids) n = (e, s2))
   \<and> (n \<noteq> 0 \<and> each_succeeds (\<lambda>t c. Some (Stop t c)) s (take (unat n) ids) s'
        \<longrightarrow> StopMultiple s (Some ids) n = (PWM_SUCCESS, s'))
   \<and> (k < unat n \<and> k < length ids \<and> each_succeeds (\<lambda>t c. Some (Stop t c)) s (take k ids) s1
        \<and> Stop s1 (ids ! k) = (e, s2) \<and> e \<noteq> PWM_SUCCESS
        \<longrightarrow> StopMultiple s (Some ids) n = (e, s2))
   \<and> (n \<noteq> 0 \<and> each_succeeds (\<lambda>t (c, d). SetDutyCycle t c d) s
                   (zip (take (unat n) ids) (take (unat n) ds)) s'
        \<longrightarrow> SetDutyCycleMultiple s (Some ids) (Some ds) n = Some (PWM_SUCCESS, s'))
   \<and> (k < unat n \<and> k < length ids \<and> k < length ds
        \<and> each_succeeds (\<lambda>t (c, d). SetDutyCycle t c d) s (zip (take k ids) (take k ds)) s1
        \<and> SetDutyCycle s1 (ids ! k) (ds ! k) = Some (e, s2) \<and> e \<noteq> PWM_SUCCESS
        \<longrightarrow> SetDutyCycleMultiple s (Some ids) (Some ds) n = Some (e, s2))"
proof -
  have null: "StartMultiple s None n = (PWM_INVALID_ARGUMENT, s)"
    "StartMultiple s (Some ids) 0 = (PWM_INVALID_ARGUMENT, s)"
    "StopMultiple s None n = (PWM_INVALID_ARGUMENT, s)"
    "StopMultiple s (Some ids) 0 = (PWM_INVALID_ARGUMENT, s)"
    "SetDutyCycleMultiple s None dp n = Some (PWM_INVALID_ARGUMENT, s)"
    "SetDutyCycleMultiple s ip None n = Some (PWM_INVALID_ARGUMENT, s)"
    "SetDutyCycleMultiple s (Some ids) (Some ds) 0 = Some (PWM_INVALID_ARGUMENT, s)"
    by (simp_all add: StartMultiple_def StopMultiple_def SetDutyCycleMultiple_def
        split: option.splits)
  have start: "n \<noteq> 0 \<and> each_succeeds (\<lambda>t c. Some (Start t c)) s (take (unat n) ids) s'
        \<longrightarrow> StartMultiple s (Some ids) n = (PWM_SUCCESS, s')"
    "k < unat n \<and> k < length ids \<and> each_succeeds (\<lambda>t c. Some (Start t c)) s (take k ids) s1
        \<and> Start s1 (ids ! k) = (e, s2) \<and> e \<noteq> PWM_SUCCESS
        \<longrightarrow> StartMultiple s (Some ids) n = (e, s2)"
    using StartMultiple_all_succeed StartMultiple_first_failure by blast+
  have stop: "n \<noteq> 0 \<and> each_succeeds (\<lambda>t c. Some (Stop t c)) s (take (unat n) ids) s'
        \<longrightarrow> StopMultiple s (Some ids) n = (PWM_SUCCESS, s')"
    "k < unat n \<and> k < length ids \<and> each_succeeds (\<lambda>t c. Some (Stop t c)) s (take k ids) s1
        \<and> Stop s1 (ids ! k) = (e, s2) \<and> e \<noteq> PWM_SUCCESS
        \<longrightarrow> StopMultiple s (Some ids) n = (e, s2)"
    using StopMultiple_all_succeed StopMultiple_first_failure by blast+
  have duty: "n \<noteq> 0 \<and> each_succeeds (\<lambda>t (c, d). SetDutyCycle t c d) s
                   (zip (take (unat n) ids) (take (unat n) ds)) s'
        \<longrightarrow> SetDutyCycleMultiple s (Some ids) (Some ds) n = Some (PWM_SUCCESS, s')"
    "k < unat n \<and> k < length ids \<and> k < length ds
        \<and> each_succeeds (\<lambda>t (c, d). SetDutyCycle t c d) s (zip (take k ids) (take k ds)) s1
        \<and> SetDutyCycle s1 (ids ! k) (ds ! k) = Some (e, s2) \<and> e \<noteq> PWM_SUCCESS
        \<longrightarrow> SetDutyCycleMultiple s (Some ids) (Some ds) n = Some (e, s2)"
    using SetDutyCycleMultiple_all_succeed SetDutyCycleMultiple_first_failure by blast+
  show ?thesis
    by (intro conjI) (rule null start stop duty)+
qed

text \<open>The example of the claim: channels 0 and 1 are started, channel 99 is refused.\<close>

theorem batch_stops_at_first_failure_witness:
  "\<exists>s2 b2. StartMultiple ready_driver (Some [0, 1, 99]) 3 = (PWM_INVALID_CHANNEL, s2)
     \<and> fst (IsChannelActive s2 0) \<and> fst (IsChannelActive s2 1)
     \<and> i2c s2 = Some b2
     \<and> calls b2 = timing_writes 0x40 0 0 0 @ timing_writes 0x40 1 0 0"
proof -
  define b1 where "b1 = ok_bus\<lparr>calls := timing_writes 0x40 0 0 0 @ timing_writes 0x40 1 0 0\<rparr>"
  define s1 where "s1 = ready_driver\<lparr>i2c := Some b1,
     channels := (channels ready_driver)[0 := ChannelState_init\<lparr>is_active := True\<rparr>,
                                          1 := ChannelState_init\<lparr>is_active := True\<rparr>]\<rparr>"
  have r: "is_initialized ready_driver" "i2c ready_driver = Some ok_bus"
    "i2c_address ready_driver = 0x40" "channels ready_driver = replicate 16 ChannelState_init"
    by (simp_all add: ready_driver_def fresh_driver_def Pca9685Pwm_new_def)
  have ok: "\<forall>n. status_of ok_bus n = I2C_SUCCESS" by (simp add: ok_bus_def)
  have "each_succeeds (\<lambda>t c. Some (Start t c)) ready_driver (take 2 [0, 1, 99]) s1"
    using r ok
    by (simp add: Start_def IsValidChannel_def MAX_CHANNELS_def SetChannelTiming_ok
        ChannelState_init_def s1_def b1_def ok_bus_def)
  moreover have "Start s1 ([0, 1, 99] ! 2) = (PWM_INVALID_CHANNEL, s1)"
    using r by (simp add: Start_def IsValidChannel_def MAX_CHANNELS_def s1_def)
  ultimately have "StartMultiple ready_driver (Some [0, 1, 99]) 3 = (PWM_INVALID_CHANNEL, s1)"
    using batch_stops_at_first_failure [of ready_driver 3 "[0, 1, 99]" _ _ _ _ 2 s1
        PWM_INVALID_CHANNEL s1]
    by simp
  moreover have "fst (IsChannelActive s1 0)" "fst (IsChannelActive s1 1)" "i2c s1 = Some b1"
    "calls b1 = timing_writes 0x40 0 0 0 @ timing_writes 0x40 1 0 0"
    using r by (simp_all add: IsChannelActive_def IsValidChannel_def MAX_CHANNELS_def s1_def b1_def)
  ultimately show ?thesis by blast
qed

section \<open>The prescale is written between sleep and wake-up\<close>

lemma frequency_in_range:
  assumes "\<not> (freq < MIN_FREQUENCY \<or> MAX_FREQUENCY < freq)"
  shows "CalculatePrescale freq = Some (word_of_int (ideal_prescale (unat freq)))"
proof -
  from assms have "24 \<le> unat freq" "unat freq \<le> 1526"
    by (simp_all add: MIN_FREQUENCY_def MAX_FREQUENCY_def not_less word_le_nat_alt)
  then show ?thesis by (rule CalculatePrescale_exact)
qed

lemma SLEEP_bit: "(m OR SLEEP) AND SLEEP = SLEEP" "((m OR SLEEP) AND NOT SLEEP) AND SLEEP = 0"
  by (simp_all add: SLEEP_def word_bw_assocs)

lemma SetFrequency_calls:
  assumes "i2c s = Some b"
  shows "\<exists>r s' k m p. SetFrequency s channel_id freq = Some (r, s')
           \<and> i2c s' = Some (b\<lparr>calls := calls b @ take k
                 [BusWriteRead (i2c_address s) [MODE1] 1,
                  BusWrite (i2c_address s) [MODE1, m OR SLEEP],
                  BusWrite (i2c_address s) [PRE_SCALE, p],
                  BusWrite (i2c_address s) [MODE1, (m OR SLEEP) AND NOT SLEEP]]\<rparr>)
           \<and> k \<le> 4
           \<and> (\<forall>j. Suc j < k \<longrightarrow> status_of b (length (calls b) + j) = I2C_SUCCESS)
           \<and> (k < 4 \<and> 0 < k \<longrightarrow> status_of b (length (calls b) + (k - 1)) \<noteq> I2C_SUCCESS)
           \<and> (0 < k \<longrightarrow> CalculatePrescale freq = Some p)
           \<and> (0 < k \<longrightarrow> r = (if status_of b (length (calls b) + (k - 1)) = I2C_SUCCESS
                               then PWM_SUCCESS else PWM_HARDWARE_ERROR))"
proof (cases "\<not> is_initialized s \<or> \<not> IsValidChannel channel_id
               \<or> freq < MIN_FREQUENCY \<or> MAX_FREQUENCY < freq")
  case True
  then have "\<exists>r. SetFrequency s channel_id freq = Some (r, s)"
    by (auto simp add: SetFrequency_def)
  then show ?thesis
    using assms by (auto intro!: exI [of _ 0])
next
  case False
  then have p: "CalculatePrescale freq = Some (word_of_int (ideal_prescale (unat freq)))"
    by (intro frequency_in_range) simp
  define n where "n = length (calls b)"
  consider (rd) "status_of b n \<noteq> I2C_SUCCESS"
    | (w1) "status_of b n = I2C_SUCCESS" "status_of b (n + 1) \<noteq> I2C_SUCCESS"
    | (wp) "status_of b n = I2C_SUCCESS" "status_of b (n + 1) = I2C_SUCCESS"
        "status_of b (n + 2) \<noteq> I2C_SUCCESS"
    | (w2) "status_of b n = I2C_SUCCESS" "status_of b (n + 1) = I2C_SUCCESS"
        "status_of b (n + 2) = I2C_SUCCESS" "status_of b (n + 3) \<noteq> I2C_SUCCESS"
    | (ok) "status_of b n = I2C_SUCCESS" "status_of b (n + 1) = I2C_SUCCESS"
        "status_of b (n + 2) = I2C_SUCCESS" "status_of b (n + 3) = I2C_SUCCESS"
    by blast
  then show ?thesis
  proof cases
    case rd
    with False assms p show ?thesis
      apply (simp add: SetFrequency_def ReadRegister_Some WriteRegister_Some n_def Let_def)
      apply (rule exI [of _ 1])
      apply simp
      done
  next
    case w1
    with False assms p show ?thesis
      apply (simp add: SetFrequency_def ReadRegister_Some WriteRegister_Some n_def Let_def)
      apply (rule exI [of _ 2])
      apply (auto simp add: less_Suc_eq)
      done
  next
    case wp
    with False assms p show ?thesis
      apply (simp add: SetFrequency_def ReadRegister_Some WriteRegister_Some n_def Let_def)
      apply (rule exI [of _ 3])
      apply (auto simp add: less_Suc_eq numeral_3_eq_3)
      done
  next
    case w2
    with False assms p show ?thesis
      apply (simp add: SetFrequency_def ReadRegister_Some WriteRegister_Some n_def Let_def numeral_3_eq_3)
      apply (rule exI [of _ 4])
      apply (auto simp add: less_Suc_eq numeral_3_eq_3 eval_nat_numeral)
      done
  next
    case ok
    with False assms p show ?thesis
      apply (simp add: SetFrequency_def ReadRegister_Some WriteRegister_Some n_def Let_def numeral_3_eq_3)
      apply (rule exI [of _ 4])
      apply (auto simp add: less_Suc_eq numeral_3_eq_3 eval_nat_numeral)
      done
  qed
qed

text \<open>
  C8 (amended). \<open>SetFrequency\<close> always returns. Among the transport calls it makes,
  every write to \<open>PRE_SCALE\<close> goes to the device's address, carries the prescale
  computed from the frequency, and comes directly after a successful write to \<open>MODE1\<close>
  whose value has the sleep bit set. If the write to \<open>PRE_SCALE\<close> succeeds, the next
  call is a write to \<open>MODE1\<close> whose value has the sleep bit clear. If the write to
  \<open>PRE_SCALE\<close> fails, it is the last call: \<open>SetFrequency\<close> returns
  \<open>PWM_HARDWARE_ERROR\<close> and no wake-up write follows, which is where the claim as
  stated fails.
\<close>

theorem SetFrequency_prescale_after_sleep:
  assumes "i2c s = Some b"
  shows "\<exists>r s' b' new. SetFrequency s channel_id freq = Some (r, s')
           \<and> i2c s' = Some b' \<and> calls b' = calls b @ new
           \<and> (\<forall>i a p. i < length new \<and> new ! i = BusWrite a [PRE_SCALE, p] \<longrightarrow>
                  0 < i
                \<and> (\<exists>m. new ! (i - 1) = BusWrite (i2c_address s) [MODE1, m] \<and> m AND SLEEP = SLEEP)
                \<and> status_of b (length (calls b) + (i - 1)) = I2C_SUCCESS
                \<and> (status_of b (length (calls b) + i) = I2C_SUCCESS \<longrightarrow>
                     Suc i < length new
                   \<and> (\<exists>m'. new ! Suc i = BusWrite (i2c_address s) [MODE1, m']
                          \<and> m' AND SLEEP = 0))
                \<and> (status_of b (length (calls b) + i) \<noteq> I2C_SUCCESS \<longrightarrow>
                     Suc i = length new \<and> r = PWM_HARDWARE_ERROR)
                \<and> a = i2c_address s \<and> CalculatePrescale freq = Some p)"
proof -
  from SetFrequency_calls [OF assms, of channel_id freq] obtain r s' k m p where
    run: "SetFrequency s channel_id freq = Some (r, s')"
    and bus: "i2c s' = Some (b\<lparr>calls := calls b @ take k
                 [BusWriteRead (i2c_address s) [MODE1] 1,
                  BusWrite (i2c_address s) [MODE1, m OR SLEEP],
                  BusWrite (i2c_address s) [PRE_SCALE, p],
                  BusWrite (i2c_address s) [MODE1, (m OR SLEEP) AND NOT SLEEP]]\<rparr>)"
    and k: "k \<le> 4" "\<forall>j. Suc j < k \<longrightarrow> status_of b (length (calls b) + j) = I2C_SUCCESS"
      "k < 4 \<and> 0 < k \<longrightarrow> status_of b (length (calls b) + (k - 1)) \<noteq> I2C_SUCCESS"
    and pre: "0 < k \<longrightarrow> CalculatePrescale freq = Some p"
    and res: "0 < k \<longrightarrow> r = (if status_of b (length (calls b) + (k - 1)) = I2C_SUCCESS
                               then PWM_SUCCESS else PWM_HARDWARE_ERROR)"
    by blast
  define new where "new = take k
                 [BusWriteRead (i2c_address s) [MODE1] 1,
                  BusWrite (i2c_address s) [MODE1, m OR SLEEP],
                  BusWrite (i2c_address s) [PRE_SCALE, p],
                  BusWrite (i2c_address s) [MODE1, (m OR SLEEP) AND NOT SLEEP]]"
  have len: "length new = k" using k(1) by (simp add: new_def)
  have regs: "MODE1 \<noteq> PRE_SCALE" by (simp add: MODE1_def PRE_SCALE_def)
  have bracket: "0 < i
       \<and> (\<exists>m. new ! (i - 1) = BusWrite (i2c_address s) [MODE1, m] \<and> m AND SLEEP = SLEEP)
       \<and> status_of b (length (calls b) + (i - 1)) = I2C_SUCCESS
       \<and> (status_of b (length (calls b) + i) = I2C_SUCCESS \<longrightarrow>
            Suc i < length new
          \<and> (\<exists>m'. new ! Suc i = BusWrite (i2c_address s) [MODE1, m'] \<and> m' AND SLEEP = 0))
       \<and> (status_of b (length (calls b) + i) \<noteq> I2C_SUCCESS \<longrightarrow>
            Suc i = length new \<and> r = PWM_HARDWARE_ERROR)
       \<and> a = i2c_address s \<and> CalculatePrescale freq = Some q"
    if i: "i < length new" "new ! i = BusWrite a [PRE_SCALE, q]" for i a q
  proof -
    from i(1) len k(1) have "i < 4" by simp
    then consider "i = 0" | "i = 1" | "i = 2" | "i = 3" by linarith
    then have i2: "i = 2"
      using i regs by cases (simp_all add: new_def len [unfolded new_def])
    with i(1) len have k3: "3 \<le> k" by simp
    have prev: "new ! 1 = BusWrite (i2c_address s) [MODE1, m OR SLEEP]"
      using k3 by (simp add: new_def)
    have this_call: "new ! 2 = BusWrite (i2c_address s) [PRE_SCALE, p]"
      using k3 by (simp add: new_def)
    with i(2) i2 have aq: "a = i2c_address s" "q = p" by simp_all
    from pre k3 have cp: "CalculatePrescale freq = Some p" by simp
    have ok1: "status_of b (length (calls b) + 1) = I2C_SUCCESS"
      using k(2) [rule_format, of 1] k3 by simp
    have wake: "Suc 2 < length new \<and> new ! Suc 2 = BusWrite (i2c_address s) [MODE1, (m OR SLEEP) AND NOT SLEEP]"
      if "status_of b (length (calls b) + 2) = I2C_SUCCESS"
    proof -
      from that k(3) k3 have "\<not> k < 4" by (cases "k = 3") auto
      with k(1) have "k = 4" by simp
      then show ?thesis by (simp add: new_def)
    qed
    have stop: "Suc 2 = length new \<and> r = PWM_HARDWARE_ERROR"
      if f: "status_of b (length (calls b) + 2) \<noteq> I2C_SUCCESS"
    proof -
      have "k \<noteq> 4"
      proof
        assume "k = 4"
        with k(2) [rule_format, of 2] f show False by simp
      qed
      with k(1) k3 have "k = 3" by simp
      with res f len show ?thesis by simp
    qed
    from prev ok1 wake stop aq cp show ?thesis
      unfolding i2 by (auto simp add: SLEEP_bit)
  qed
  have bus': "i2c s' = Some (b\<lparr>calls := calls b @ new\<rparr>)"
    using bus by (simp add: new_def)
  have c: "calls (b\<lparr>calls := calls b @ new\<rparr>) = calls b @ new" by simp
  from run bus' c bracket show ?thesis by blast
qed

lemma CalculatePrescale_1000: "CalculatePrescale 1000 = Some 5"
  using CalculatePrescale_exact [of 1000] by (simp add: ideal_prescale_eq)

lemma ready_driver_simps:
  "is_initialized ready_driver" "i2c ready_driver = Some ok_bus"
  "i2c_address ready_driver = 0x40" "channels ready_driver = replicate 16 ChannelState_init"
  by (simp_all add: ready_driver_def fresh_driver_def Pca9685Pwm_new_def)

theorem SetFrequency_prescale_after_sleep_witness:
  "i2c ready_driver = Some ok_bus
   \<and> (\<exists>s' b'. SetFrequency ready_driver 0 1000 = Some (PWM_SUCCESS, s') \<and> i2c s' = Some b'
         \<and> calls b' = [BusWriteRead 0x40 [MODE1] 1, BusWrite 0x40 [MODE1, 0x10],
                         BusWrite 0x40 [PRE_SCALE, 5], BusWrite 0x40 [MODE1, 0x00]])"
  using SetFrequency_prescale_after_sleep [of ready_driver ok_bus 0 1000]
  by (simp add: SetFrequency_def ReadRegister_Some WriteRegister_Some ready_driver_simps
      CalculatePrescale_1000 IsValidChannel_def MAX_CHANNELS_def MIN_FREQUENCY_def
      MAX_FREQUENCY_def ok_bus_def SLEEP_def Let_def)

text \<open>
  The claim as stated fails when the prescale write itself fails: the call returns at
  once, and no write that clears the sleep bit follows.
\<close>

theorem SetFrequency_no_wake_after_failed_prescale_counterexample:
  "\<exists>s' b'. SetFrequency (ready_driver\<lparr>i2c := Some third_call_fails\<rparr>) 0 1000
             = Some (PWM_HARDWARE_ERROR, s')
     \<and> i2c s' = Some b'
     \<and> calls b' = [BusWriteRead 0x40 [MODE1] 1, BusWrite 0x40 [MODE1, 0x10],
                     BusWrite 0x40 [PRE_SCALE, 5]]"
  by (simp add: SetFrequency_def ReadRegister_Some WriteRegister_Some ready_driver_simps
      CalculatePrescale_1000 IsValidChannel_def MAX_CHANNELS_def MIN_FREQUENCY_def
      MAX_FREQUENCY_def third_call_fails_def SLEEP_def Let_def)

section \<open>Aborting at the first transport error\<close>

lemma aborts_same_bus:
  assumes "i2c s' = i2c s"
  shows "aborts_at_first_error s (r, s')"
  using assms by (auto simp add: aborts_at_first_error_def)

lemma aborts_result_cong:
  assumes "aborts_at_first_error s (r, s1)" "i2c s1' = i2c s1"
  shows "aborts_at_first_error s (r, s1')"
  using assms by (simp add: aborts_at_first_error_def)

lemma aborts_trans:
  assumes 1: "aborts_at_first_error s (PWM_SUCCESS, s1)"
    and 2: "aborts_at_first_error s1 rs"
  shows "aborts_at_first_error s rs"
  unfolding aborts_at_first_error_def
proof (intro allI impI)
  fix b assume b: "i2c s = Some b"
  from 1 b obtain b1 where b1: "i2c s1 = Some b1" "status_of b1 = status_of b"
    "take (length (calls b)) (calls b1) = calls b"
    and f1: "\<forall>n. length (calls b) \<le> n \<and> n < length (calls b1) \<and> status_of b n \<noteq> I2C_SUCCESS
               \<longrightarrow> Suc n = length (calls b1) \<and> PWM_SUCCESS = PWM_HARDWARE_ERROR"
    by (auto simp add: aborts_at_first_error_def)
  from 2 b1(1) obtain b2 where b2: "i2c (snd rs) = Some b2" "status_of b2 = status_of b1"
    "take (length (calls b1)) (calls b2) = calls b1"
    and f2: "\<forall>n. length (calls b1) \<le> n \<and> n < length (calls b2) \<and> status_of b1 n \<noteq> I2C_SUCCESS
               \<longrightarrow> Suc n = length (calls b2) \<and> fst rs = PWM_HARDWARE_ERROR"
    by (auto simp add: aborts_at_first_error_def)
  have l1: "length (calls b) \<le> length (calls b1)"
    using arg_cong [OF b1(3), of length] by simp
  have l2: "length (calls b1) \<le> length (calls b2)"
    using arg_cong [OF b2(3), of length] by simp
  have "take (length (calls b)) (calls b2) = take (length (calls b)) (take (length (calls b1)) (calls b2))"
    using l1 by (simp add: min_def)
  then have t: "take (length (calls b)) (calls b2) = calls b"
    by (simp only: b2(3) b1(3))
  have "Suc n = length (calls b2) \<and> fst rs = PWM_HARDWARE_ERROR"
    if n: "length (calls b) \<le> n" "n < length (calls b2)" "status_of b n \<noteq> I2C_SUCCESS" for n
  proof -
    have "\<not> n < length (calls b1)" using f1 n by auto
    then have "length (calls b1) \<le> n" by simp
    with f2 n b1(2) show ?thesis by auto
  qed
  with b2(1,2) b1(2) t
  show "\<exists>b'. i2c (snd rs) = Some b' \<and> status_of b' = status_of b
          \<and> take (length (calls b)) (calls b') = calls b
          \<and> (\<forall>n. length (calls b) \<le> n \<and> n < length (calls b') \<and> status_of b n \<noteq> I2C_SUCCESS
                \<longrightarrow> Suc n = length (calls b') \<and> fst rs = PWM_HARDWARE_ERROR)"
    by auto
qed

lemma only_index: "m \<le> n \<Longrightarrow> n < Suc m \<Longrightarrow> n = (m :: nat)"
  by simp

lemma aborts_WriteRegister: "aborts_at_first_error s (WriteRegister s reg v)"
  by (auto simp add: aborts_at_first_error_def WriteRegister_Some dest: only_index)

lemma aborts_seq:
  assumes "aborts_at_first_error s op1"
    and "\<And>s1. op1 = (PWM_SUCCESS, s1) \<Longrightarrow> aborts_at_first_error s1 (rest s1)"
  shows "aborts_at_first_error s
           (case op1 of (result, s1) \<Rightarrow> if result \<noteq> PWM_SUCCESS then (result, s1) else rest s1)"
proof (cases op1)
  case (Pair result s1)
  show ?thesis
  proof (cases "result = PWM_SUCCESS")
    case True
    with Pair assms show ?thesis by (auto intro: aborts_trans)
  next
    case False
    with Pair assms(1) show ?thesis by simp
  qed
qed

lemma aborts_seq_opt:
  assumes "aborts_at_first_error s op1"
    and "\<And>s1. op1 = (PWM_SUCCESS, s1) \<Longrightarrow> aborts_opt s1 (rest s1)"
  shows "aborts_opt s
           (case op1 of (result, s1) \<Rightarrow> if result \<noteq> PWM_SUCCESS then Some (result, s1) else rest s1)"
proof (cases op1)
  case (Pair result s1)
  show ?thesis
  proof (cases "result = PWM_SUCCESS")
    case True
    with Pair assms show ?thesis by (auto simp add: aborts_opt_def intro: aborts_trans)
  next
    case False
    with Pair assms(1) show ?thesis by (simp add: aborts_opt_def)
  qed
qed

lemma aborts_read:
  "aborts_at_first_error s
     (case ReadRegister s reg of (Inl e, s1) \<Rightarrow> (e, s1) | (Inr v, s1) \<Rightarrow> (PWM_SUCCESS, s1))"
  by (auto simp add: aborts_at_first_error_def ReadRegister_Some dest: only_index)

lemma aborts_read_seq:
  assumes "\<And>v s1. ReadRegister s reg = (Inr v, s1) \<Longrightarrow> aborts_at_first_error s1 (rest v s1)"
  shows "aborts_at_first_error s
           (case ReadRegister s reg of (Inl e, s1) \<Rightarrow> (e, s1) | (Inr v, s1) \<Rightarrow> rest v s1)"
proof (cases "ReadRegister s reg")
  case (Pair x s1)
  show ?thesis
  proof (cases x)
    case (Inl e)
    with Pair aborts_read [of s reg] show ?thesis by simp
  next
    case (Inr v)
    with Pair aborts_read [of s reg] assms [of v s1] show ?thesis
      by (auto intro: aborts_trans)
  qed
qed

lemma aborts_read_seq_opt:
  assumes "\<And>v s1. ReadRegister s reg = (Inr v, s1) \<Longrightarrow> aborts_opt s1 (rest v s1)"
  shows "aborts_opt s
           (case ReadRegister s reg of (Inl e, s1) \<Rightarrow> Some (e, s1) | (Inr v, s1) \<Rightarrow> rest v s1)"
proof (cases "ReadRegister s reg")
  case (Pair x s1)
  show ?thesis
  proof (cases x)
    case (Inl e)
    with Pair aborts_read [of s reg] show ?thesis by (simp add: aborts_opt_def)
  next
    case (Inr v)
    with Pair aborts_read [of s reg] assms [of v s1] show ?thesis
      by (auto simp add: aborts_opt_def intro: aborts_trans)
  qed
qed

lemma aborts_SetChannelTiming: "aborts_at_first_error s (SetChannelTiming s c on off)"
  unfolding SetChannelTiming_def Let_def
  by (auto intro!: aborts_seq aborts_WriteRegister aborts_same_bus)

lemma aborts_Start: "aborts_at_first_error s (Start s c)"
proof -
  obtain r s1 where r: "SetChannelTiming s c (on_time (channels s ! unat c))
       (off_time (channels s ! unat c)) = (r, s1)" by (cases "SetChannelTiming s c (on_time (channels s ! unat c))
       (off_time (channels s ! unat c))")
  with aborts_SetChannelTiming [of s c "on_time (channels s ! unat c)" "off_time (channels s ! unat c)"]
  show ?thesis
    by (auto simp add: Start_def intro: aborts_same_bus aborts_result_cong)
qed

lemma aborts_Stop: "aborts_at_first_error s (Stop s c)"
proof -
  obtain r s1 where r: "SetChannelTiming s c 0 MAX_PWM_VALUE = (r, s1)"
    by (cases "SetChannelTiming s c 0 MAX_PWM_VALUE")
  with aborts_SetChannelTiming [of s c 0 MAX_PWM_VALUE]
  show ?thesis
    by (auto simp add: Stop_def intro: aborts_same_bus aborts_result_cong)
qed

lemma aborts_Sleep: "aborts_at_first_error s (Sleep s)"
  unfolding Sleep_def
  by (auto intro!: aborts_read_seq aborts_WriteRegister aborts_same_bus)

lemma aborts_Wakeup: "aborts_at_first_error s (Wakeup s)"
  unfolding Wakeup_def
  by (auto intro!: aborts_read_seq aborts_WriteRegister aborts_same_bus)

lemma aborts_ConfigureExternalClock: "aborts_at_first_error s (ConfigureExternalClock s f)"
  unfolding ConfigureExternalClock_def
  by (auto intro!: aborts_read_seq aborts_WriteRegister aborts_same_bus)

lemma aborts_SetOutputDriver: "aborts_at_first_error s (SetOutputDriver s t)"
  unfolding SetOutputDriver_def
  by (auto intro!: aborts_read_seq aborts_WriteRegister aborts_same_bus)

lemma aborts_SetOutputInvert: "aborts_at_first_error s (SetOutputInvert s t)"
  unfolding SetOutputInvert_def
  by (auto intro!: aborts_read_seq aborts_WriteRegister aborts_same_bus)

lemma aborts_start_loop: "aborts_at_first_error s (start_loop s cs)"
proof (induction cs arbitrary: s)
  case Nil
  show ?case by (simp add: aborts_same_bus)
next
  case (Cons c cs)
  show ?case
    unfolding start_loop.simps Let_def
    by (rule aborts_seq [OF aborts_Start]) (rule Cons.IH)
qed

lemma aborts_stop_loop: "aborts_at_first_error s (stop_loop s cs)"
proof (induction cs arbitrary: s)
  case Nil
  show ?case by (simp add: aborts_same_bus)
next
  case (Cons c cs)
  show ?case
    unfolding stop_loop.simps Let_def
    by (rule aborts_seq [OF aborts_Stop]) (rule Cons.IH)
qed

lemma aborts_StartMultiple: "aborts_at_first_error s (StartMultiple s ids n)"
  by (auto simp add: StartMultiple_def split: option.splits
      intro: aborts_same_bus aborts_start_loop)

lemma aborts_StopMultiple: "aborts_at_first_error s (StopMultiple s ids n)"
  by (auto simp add: StopMultiple_def split: option.splits
      intro: aborts_same_bus aborts_stop_loop)

lemma aborts_opt_Some [simp]: "aborts_opt s (Some rs) = aborts_at_first_error s rs"
  by (simp add: aborts_opt_def)

lemma aborts_opt_None [simp]: "aborts_opt s None"
  by (simp add: aborts_opt_def)

lemma aborts_SetFrequency: "aborts_opt s (SetFrequency s c f)"
  unfolding SetFrequency_def Let_def
  by (auto split: option.splits
      intro!: aborts_read_seq_opt aborts_seq_opt aborts_WriteRegister aborts_same_bus)

lemma aborts_SetDutyCycle: "aborts_opt s (SetDutyCycle s c d)"
proof (cases "DutyCycleToTiming d")
  case None
  then show ?thesis by (auto simp add: SetDutyCycle_def aborts_same_bus)
next
  case (Some t)
  obtain on off where t: "t = (on, off)" by (cases t)
  obtain r s1 where r: "SetChannelTiming s c on off = (r, s1)"
    by (cases "SetChannelTiming s c on off")
  with Some t aborts_SetChannelTiming [of s c on off] show ?thesis
    by (auto simp add: SetDutyCycle_def intro: aborts_same_bus aborts_result_cong)
qed

lemma aborts_opt_trans:
  assumes "aborts_at_first_error s (PWM_SUCCESS, s1)" "aborts_opt s1 x"
  shows "aborts_opt s x"
  using assms by (auto simp add: aborts_opt_def intro: aborts_trans)

lemma aborts_ConfigureChannel: "aborts_opt s (ConfigureChannel s c config)"
proof (cases "SetFrequency s c (frequency_hz config)")
  case None
  then show ?thesis by (auto simp add: ConfigureChannel_def aborts_same_bus)
next
  case (Some rs)
  obtain r s1 where rs: "rs = (r, s1)" by (cases rs)
  from Some rs aborts_SetFrequency [of s c "frequency_hz config"]
  have 1: "aborts_at_first_error s (r, s1)" by simp
  show ?thesis
  proof (cases "r = PWM_SUCCESS")
    case False
    with Some rs 1 show ?thesis by (auto simp add: ConfigureChannel_def aborts_same_bus)
  next
    case True
    have "aborts_opt s1 (SetDutyCycle s1 c (initial_duty_cycle config))"
      by (rule aborts_SetDutyCycle)
    with 1 True have "aborts_opt s (SetDutyCycle s1 c (initial_duty_cycle config))"
      by (auto intro: aborts_opt_trans)
    with Some rs True show ?thesis
      by (auto simp add: ConfigureChannel_def aborts_same_bus aborts_opt_def
          split: option.splits if_splits)
  qed
qed

lemma aborts_duty_loop: "aborts_opt s (duty_loop s cs)"
proof (induction cs arbitrary: s)
  case Nil
  show ?case by (simp add: aborts_same_bus)
next
  case (Cons x cs)
  obtain c d where x: "x = (c, d)" by (cases x)
  show ?case
  proof (cases "SetDutyCycle s c d")
    case None
    with x show ?thesis by simp
  next
    case (Some rs)
    obtain r s1 where rs: "rs = (r, s1)" by (cases rs)
    from Some rs aborts_SetDutyCycle [of s c d]
    have 1: "aborts_at_first_error s (r, s1)" by simp
    show ?thesis
    proof (cases "r = PWM_SUCCESS")
      case False
      with Some rs 1 x show ?thesis by simp
    next
      case True
      with 1 Cons.IH [of s1] have "aborts_opt s (duty_loop s1 cs)"
        by (auto intro: aborts_opt_trans)
      with Some rs True x show ?thesis by simp
    qed
  qed
qed

lemma aborts_SetDutyCycleMultiple: "aborts_opt s (SetDutyCycleMultiple s ids ds n)"
  by (auto simp add: SetDutyCycleMultiple_def aborts_same_bus aborts_duty_loop
      split: option.splits)

lemma aborts_Reset: "aborts_at_first_error s (Reset s)"
  by (auto simp add: aborts_at_first_error_def Reset_def i2c_Write_def i2c_do_def Let_def
      dest: only_index)

lemma Initialize_uninitialized:
  assumes "\<not> is_initialized s" "i2c s = Some b"
  shows "Initialize s = Some
    (if status_of b (length (calls b)) \<noteq> I2C_SUCCESS
     then (PWM_HARDWARE_ERROR, s\<lparr>i2c := Some (b\<lparr>calls := calls b @ [BusInitialize]\<rparr>)\<rparr>)
     else if status_of b (Suc (length (calls b))) \<noteq> I2C_SUCCESS
     then (PWM_HARDWARE_ERROR,
           s\<lparr>i2c := Some (b\<lparr>calls := calls b @ [BusInitialize, BusWrite 0x00 [0x00, 0x06]]\<rparr>)\<rparr>)
     else (PWM_NOT_INITIALIZED,
           s\<lparr>i2c := Some (b\<lparr>calls := calls b @ [BusInitialize, BusWrite 0x00 [0x00, 0x06]]\<rparr>),
             channels := reset_channels (channels s)\<rparr>))"
  using assms
  by (simp add: Initialize_def i2c_Initialize_def i2c_do_def Reset_def i2c_Write_def
      SetFrequency_def Let_def)

lemma two_indices: "m \<le> n \<Longrightarrow> n < Suc (Suc m) \<Longrightarrow> n = m \<or> n = Suc m"
  by auto

lemma aborts_Initialize: "aborts_opt s (Initialize s)"
proof (cases "is_initialized s")
  case True
  then show ?thesis by (simp add: Initialize_def aborts_same_bus)
next
  case False
  show ?thesis
  proof (cases "i2c s")
    case None
    with False show ?thesis by (simp add: Initialize_def aborts_same_bus)
  next
    case (Some b)
    show ?thesis
      unfolding Initialize_uninitialized [OF False Some]
      using Some
      by (auto simp add: aborts_at_first_error_def dest: only_index two_indices)
  qed
qed

lemma Deinitialize_always_succeeds:
  assumes "is_initialized s"
  shows "\<exists>s'. Deinitialize s = (PWM_SUCCESS, s') \<and> \<not> is_initialized s'"
  using assms by (simp add: Deinitialize_def Let_def)

lemma Stop_first_write_fails:
  assumes "is_initialized s" "i2c s = Some b" "status_of b (length (calls b)) \<noteq> I2C_SUCCESS"
    "c < 16"
  shows "Stop s c = (PWM_HARDWARE_ERROR,
            s\<lparr>i2c := Some (b\<lparr>calls := calls b @ [BusWrite (i2c_address s) [0x06 + 4 * c, 0]]\<rparr>)\<rparr>)"
  using assms
  by (simp add: Stop_def SetChannelTiming_def IsValidChannel_def MAX_CHANNELS_def
      WriteRegister_Some LED0_ON_L_def Let_def algebra_simps)

lemma upt_16: "[0..<16] = [0, 1, 2, 3, 4, 5, 6, 7, 8, 9, 10, 11, 12, 13, 14, 15]"
  by (simp add: upt_rec)

lemma SetChannelTiming_calls:
  assumes "i2c s = Some b" "c < 16"
  shows "snd (SetChannelTiming s c on off) =
           s\<lparr>i2c := Some (b\<lparr>calls := calls b @ issued (status_of b) (length (calls b))
                                        (timing_writes (i2c_address s) c on off)\<rparr>)\<rparr>"
proof -
  define n where "n = length (calls b)"
  consider (f0) "status_of b n \<noteq> I2C_SUCCESS"
    | (f1) "status_of b n = I2C_SUCCESS" "status_of b (Suc n) \<noteq> I2C_SUCCESS"
    | (f2) "status_of b n = I2C_SUCCESS" "status_of b (Suc n) = I2C_SUCCESS"
        "status_of b (Suc (Suc n)) \<noteq> I2C_SUCCESS"
    | (f3) "status_of b n = I2C_SUCCESS" "status_of b (Suc n) = I2C_SUCCESS"
        "status_of b (Suc (Suc n)) = I2C_SUCCESS" "status_of b (Suc (Suc (Suc n))) \<noteq> I2C_SUCCESS"
    | (ok) "status_of b n = I2C_SUCCESS" "status_of b (Suc n) = I2C_SUCCESS"
        "status_of b (Suc (Suc n)) = I2C_SUCCESS" "status_of b (Suc (Suc (Suc n))) = I2C_SUCCESS"
    by blast
  then show ?thesis
  proof cases
    case f0
    with assms show ?thesis
      by (simp add: SetChannelTiming_def IsValidChannel_def MAX_CHANNELS_def
          WriteRegister_Some timing_writes_def LED0_ON_L_def high_byte n_def Let_def
          algebra_simps)
  next
    case f1
    with assms show ?thesis
      by (simp add: SetChannelTiming_def IsValidChannel_def MAX_CHANNELS_def
          WriteRegister_Some timing_writes_def LED0_ON_L_def high_byte n_def Let_def
          algebra_simps)
  next
    case f2
    with assms show ?thesis
      by (simp add: SetChannelTiming_def IsValidChannel_def MAX_CHANNELS_def
          WriteRegister_Some timing_writes_def LED0_ON_L_def high_byte n_def Let_def
          algebra_simps)
  next
    case f3
    with assms show ?thesis
      by (simp add: SetChannelTiming_def IsValidChannel_def MAX_CHANNELS_def
          WriteRegister_Some timing_writes_def LED0_ON_L_def high_byte n_def Let_def
          algebra_simps)
  next
    case ok
    with assms show ?thesis
      by (simp add: SetChannelTiming_def IsValidChannel_def MAX_CHANNELS_def
          WriteRegister_Some timing_writes_def LED0_ON_L_def high_byte n_def Let_def
          algebra_simps)
  qed
qed

lemma Stop_calls:
  assumes "is_initialized s" "i2c s = Some b" "c < 16"
  shows "is_initialized (snd (Stop s c)) \<and> i2c_address (snd (Stop s c)) = i2c_address s
       \<and> i2c (snd (Stop s c)) =
           Some (b\<lparr>calls := calls b @ issued (status_of b) (length (calls b))
                                        (timing_writes (i2c_address s) c 0 4095)\<rparr>)"
  using assms SetChannelTiming_calls [OF assms(2,3), of 0 MAX_PWM_VALUE]
  by (simp add: Stop_def IsValidChannel_def MAX_CHANNELS_def MAX_PWM_VALUE_def split_beta Let_def)

lemma channel_of_nat: "i < 16 \<Longrightarrow> (of_nat i :: 8 word) < 16"
  by (simp add: word_less_nat_alt unat_of_nat)

lemma stop_fold_calls:
  assumes "is_initialized s" "i2c s = Some b" "\<forall>i\<in>set ns. i < 16"
  shows "is_initialized (fold (\<lambda>i st. snd (Stop st (of_nat i))) ns s)
       \<and> i2c_address (fold (\<lambda>i st. snd (Stop st (of_nat i))) ns s) = i2c_address s
       \<and> i2c (fold (\<lambda>i st. snd (Stop st (of_nat i))) ns s) =
           Some (b\<lparr>calls := calls b @ stop_all_calls (status_of b) (length (calls b))
                                        (i2c_address s) ns\<rparr>)"
  using assms
proof (induction ns arbitrary: s b)
  case Nil
  then show ?case by simp
next
  case (Cons i ns)
  define s1 where "s1 = snd (Stop s (of_nat i))"
  define ws where "ws = issued (status_of b) (length (calls b))
                          (timing_writes (i2c_address s) (of_nat i) 0 4095)"
  define b1 where "b1 = b\<lparr>calls := calls b @ ws\<rparr>"
  from Cons.prems have "(of_nat i :: 8 word) < 16" by (simp add: channel_of_nat)
  from Stop_calls [OF Cons.prems(1,2) this]
  have s1: "is_initialized s1" "i2c_address s1 = i2c_address s" "i2c s1 = Some b1"
    by (simp_all add: s1_def b1_def ws_def)
  from Cons.prems have "\<forall>i\<in>set ns. i < 16" by simp
  from Cons.IH [OF s1(1) s1(3) this] s1(2)
  show ?case
    by (simp add: s1_def [symmetric] b1_def ws_def [symmetric] Let_def)
qed

lemma first_write_issued:
  "i \<in> set ns \<Longrightarrow> BusWrite addr [0x06 + 4 * of_nat i, 0] \<in> set (stop_all_calls st n addr ns)"
  by (induction ns arbitrary: n) (auto simp add: timing_writes_def Let_def)

lemma Deinitialize_trace:
  assumes "is_initialized s" "i2c s = Some b"
  shows "Deinitialize s = (PWM_SUCCESS, snd (Deinitialize s))
       \<and> \<not> is_initialized (snd (Deinitialize s))
       \<and> i2c (snd (Deinitialize s)) =
            Some (b\<lparr>calls := calls b @ Deinitialize_calls b (i2c_address s)\<rparr>)"
proof -
  define s1 where "s1 = stop_all s"
  define stops where "stops = stop_all_calls (status_of b) (length (calls b)) (i2c_address s) [0..<16]"
  define b1 where "b1 = b\<lparr>calls := calls b @ stops\<rparr>"
  have "\<forall>i\<in>set [0..<16]. i < (16 :: nat)" by simp
  from stop_fold_calls [OF assms this]
  have s1: "is_initialized s1" "i2c_address s1 = i2c_address s" "i2c s1 = Some b1"
    by (simp_all add: s1_def stop_all_def MAX_CHANNELS_def b1_def stops_def)
  show ?thesis
    using assms(1) s1
    by (simp add: Deinitialize_def s1_def [symmetric] Sleep_def ReadRegister_Some
        WriteRegister_Some i2c_Deinitialize_def i2c_do_def Deinitialize_calls_def
        stops_def [symmetric] b1_def Let_def)
qed

lemma Deinitialize_calls_members:
  "(\<forall>i<16. BusWrite addr [0x06 + 4 * of_nat i, 0] \<in> set (Deinitialize_calls b addr))
   \<and> BusWriteRead addr [MODE1] 1 \<in> set (Deinitialize_calls b addr)
   \<and> last (Deinitialize_calls b addr) = BusDeinitialize"
  by (simp add: Deinitialize_calls_def Let_def first_write_issued)

lemma Deinitialize_calls_third:
  "take 5 (Deinitialize_calls third_call_fails 0x40) =
     [BusWrite 0x40 [0x06, 0], BusWrite 0x40 [0x07, 0], BusWrite 0x40 [0x08, 0xFF],
      BusWrite 0x40 [0x0A, 0], BusWrite 0x40 [0x0B, 0]]
   \<and> length (Deinitialize_calls third_call_fails 0x40) = 66"
  by (simp add: Deinitialize_calls_def upt_16 timing_writes_def third_call_fails_def Let_def)

text \<open>
  The claim as stated fails for \<open>Deinitialize\<close>: on an initialized driver whose
  transport fails every call, it tries the first write of all 16 channels, the read for
  the sleep command and the transport's own \<open>Deinitialize\<close>, and returns success.
\<close>

theorem Deinitialize_ignores_failures_counterexample:
  "\<exists>s' b'. Deinitialize (ready_driver\<lparr>i2c := Some bad_bus\<rparr>) = (PWM_SUCCESS, s')
     \<and> i2c s' = Some b' \<and> status_of b' = (\<lambda>_. I2C_FAILURE)
     \<and> calls b' = map (\<lambda>n. BusWrite 0x40 [0x06 + 4 * of_nat n, 0]) [0..<16]
                   @ [BusWriteRead 0x40 [MODE1] 1, BusDeinitialize]"
  by (simp add: Deinitialize_def stop_all_def MAX_CHANNELS_def upt_16 Stop_first_write_fails
      Sleep_def ReadRegister_Some i2c_Deinitialize_def i2c_do_def ready_driver_simps bad_bus_def
      Let_def)


text \<open>
  C5 (amended). Every multi-step operation other than \<open>Deinitialize\<close> aborts at the first
  transport error: a failed transport call is the last call the operation makes, and the
  operation returns \<open>PWM_HARDWARE_ERROR\<close>. \<open>Deinitialize\<close> drops the results of its
  steps and carries on after a failed call: on an initialized driver it returns success
  and clears the initialized flag, whatever the transport did; with a transport present
  the calls it makes are exactly those of \<open>Deinitialize_calls\<close>, so the stop of every
  one of the 16 channels is attempted (its first write is made whatever the calls before
  returned), then the read of \<open>MODE1\<close> for the sleep command, and the last call is the
  transport's \<open>Deinitialize\<close>.
\<close>

theorem operations_abort_at_first_transport_error:
  "aborts_at_first_error s (Start s c)
   \<and> aborts_at_first_error s (Stop s c)
   \<and> aborts_at_first_error s (Sleep s)
   \<and> aborts_at_first_error s (Wakeup s)
   \<and> aborts_at_first_error s (ConfigureExternalClock s f)
   \<and> aborts_at_first_error s (SetOutputDriver s t)
   \<and> aborts_at_first_error s (SetOutputInvert s t)
   \<and> aborts_at_first_error s (StartMultiple s ids n)
   \<and> aborts_at_first_error s (StopMultiple s ids n)
   \<and> (\<forall>rs. Initialize s = Some rs \<longrightarrow> aborts_at_first_error s rs)
   \<and> (\<forall>rs. SetFrequency s c f = Some rs \<longrightarrow> aborts_at_first_error s rs)
   \<and> (\<forall>rs. SetDutyCycle s c d = Some rs \<longrightarrow> aborts_at_first_error s rs)
   \<and> (\<forall>rs. ConfigureChannel s c config = Some rs \<longrightarrow> aborts_at_first_error s rs)
   \<and> (\<forall>rs. SetDutyCycleMultiple s ids ds n = Some rs \<longrightarrow> aborts_at_first_error s rs)
   \<and> (is_initialized s \<longrightarrow> (\<exists>s'. Deinitialize s = (PWM_SUCCESS, s') \<and> \<not> is_initialized s'))
   \<and> (is_initialized s \<and> i2c s = Some b \<longrightarrow>
        (\<exists>s' new. Deinitialize s = (PWM_SUCCESS, s') \<and> \<not> is_initialized s'
           \<and> i2c s' = Some (b\<lparr>calls := calls b @ new\<rparr>)
           \<and> new = Deinitialize_calls b (i2c_address s)
           \<and> (\<forall>i<16. BusWrite (i2c_address s) [0x06 + 4 * of_nat i, 0] \<in> set new)
           \<and> BusWriteRead (i2c_address s) [MODE1] 1 \<in> set new
           \<and> last new = BusDeinitialize))"
proof -
  have "\<exists>s' new. Deinitialize s = (PWM_SUCCESS, s') \<and> \<not> is_initialized s'
           \<and> i2c s' = Some (b\<lparr>calls := calls b @ new\<rparr>)
           \<and> new = Deinitialize_calls b (i2c_address s)
           \<and> (\<forall>i<16. BusWrite (i2c_address s) [0x06 + 4 * of_nat i, 0] \<in> set new)
           \<and> BusWriteRead (i2c_address s) [MODE1] 1 \<in> set new
           \<and> last new = BusDeinitialize"
    if "is_initialized s" "i2c s = Some b"
    using Deinitialize_trace [OF that] Deinitialize_calls_members [of "i2c_address s" b]
    by blast
  then show ?thesis
    using aborts_Start [of s c] aborts_Stop [of s c] aborts_Sleep [of s] aborts_Wakeup [of s]
      aborts_ConfigureExternalClock [of s f] aborts_SetOutputDriver [of s t]
      aborts_SetOutputInvert [of s t] aborts_StartMultiple [of s ids n]
      aborts_StopMultiple [of s ids n] aborts_Initialize [of s] aborts_SetFrequency [of s c f]
      aborts_SetDutyCycle [of s c d] aborts_ConfigureChannel [of s c config]
      aborts_SetDutyCycleMultiple [of s ids ds n] Deinitialize_always_succeeds [of s]
    unfolding aborts_opt_def by blast
qed

theorem operations_abort_at_first_transport_error_witness:
  "\<exists>s' b'. Start (ready_driver\<lparr>i2c := Some third_call_fails\<rparr>) 0 = (PWM_HARDWARE_ERROR, s')
     \<and> i2c s' = Some b'
     \<and> calls b' = [BusWrite 0x40 [0x06, 0], BusWrite 0x40 [0x07, 0], BusWrite 0x40 [0x08, 0]]
     \<and> aborts_at_first_error (ready_driver\<lparr>i2c := Some third_call_fails\<rparr>)
          (Start (ready_driver\<lparr>i2c := Some third_call_fails\<rparr>) 0)
     \<and> is_initialized (ready_driver\<lparr>i2c := Some third_call_fails\<rparr>)
     \<and> i2c (ready_driver\<lparr>i2c := Some third_call_fails\<rparr>) = Some third_call_fails
     \<and> (\<exists>s'' new. Deinitialize (ready_driver\<lparr>i2c := Some third_call_fails\<rparr>)
                        = (PWM_SUCCESS, s'')
           \<and> \<not> is_initialized s''
           \<and> i2c s'' = Some (third_call_fails\<lparr>calls := new\<rparr>)
           \<and> take 5 new =
                 [BusWrite 0x40 [0x06, 0], BusWrite 0x40 [0x07, 0], BusWrite 0x40 [0x08, 0xFF],
                  BusWrite 0x40 [0x0A, 0], BusWrite 0x40 [0x0B, 0]]
           \<and> length new = 66 \<and> last new = BusDeinitialize)"
proof -
  define s3 where "s3 = ready_driver\<lparr>i2c := Some third_call_fails\<rparr>"
  note inst = operations_abort_at_first_transport_error
            [of s3 0 0 True None 0 NaN "\<lparr>frequency_hz = 0, initial_duty_cycle = NaN\<rparr>" None
               third_call_fails]
  have a: "aborts_at_first_error s3 (Start s3 0)"
    using inst by blast
  have i: "is_initialized s3" "i2c s3 = Some third_call_fails" "i2c_address s3 = 0x40"
    "calls third_call_fails = []"
    by (simp_all add: s3_def ready_driver_simps third_call_fails_def)
  have d: "\<exists>s'' new. Deinitialize s3 = (PWM_SUCCESS, s'')
           \<and> \<not> is_initialized s''
           \<and> i2c s'' = Some (third_call_fails\<lparr>calls := new\<rparr>)
           \<and> take 5 new =
                 [BusWrite 0x40 [0x06, 0], BusWrite 0x40 [0x07, 0], BusWrite 0x40 [0x08, 0xFF],
                  BusWrite 0x40 [0x0A, 0], BusWrite 0x40 [0x0B, 0]]
           \<and> length new = 66 \<and> last new = BusDeinitialize"
    using inst i Deinitialize_calls_third by auto
  have "\<exists>s' b'. Start s3 0 = (PWM_HARDWARE_ERROR, s') \<and> i2c s' = Some b'
     \<and> calls b' = [BusWrite 0x40 [0x06, 0], BusWrite 0x40 [0x07, 0], BusWrite 0x40 [0x08, 0]]"
    by (simp add: s3_def Start_def SetChannelTiming_def IsValidChannel_def MAX_CHANNELS_def
      WriteRegister_Some LED0_ON_L_def ready_driver_simps third_call_fails_def
      ChannelState_init_def Let_def)
  with a i(1,2) d show ?thesis unfolding s3_def by blast
qed

section \<open>The stored counts stay within 12 bits\<close>

lemma channels_WriteRegister [simp]: "channels (snd (WriteRegister s reg v)) = channels s"
  by (simp add: WriteRegister_def Let_def split: option.splits prod.splits)

lemma channels_ReadRegister [simp]: "channels (snd (ReadRegister s reg)) = channels s"
  by (simp add: ReadRegister_def Let_def split: option.splits prod.splits)

lemma channels_SetChannelTiming [simp]:
  "channels (snd (SetChannelTiming s c on off)) = channels s"
proof -
  have w: "channels s1 = channels s0" if "WriteRegister s0 reg v = (r, s1)" for s0 s1 reg v r
    using channels_WriteRegister [of s0 reg v] that by simp
  show ?thesis
    by (auto simp add: SetChannelTiming_def Let_def split: prod.splits dest!: w)
qed

lemma timing_in_range_update:
  assumes "timing_in_range s" "channels s' = (channels s)[i := x]"
    and "i < length (channels s) \<Longrightarrow> on_time x \<le> 4095 \<and> off_time x \<le> 4095"
  shows "timing_in_range s'"
proof (cases "i < length (channels s)")
  case True
  with assms show ?thesis
    by (auto simp add: timing_in_range_def list_all_length nth_list_update)
next
  case False
  with assms show ?thesis by (simp add: timing_in_range_def list_update_beyond)
qed

lemma timing_in_range_same:
  assumes "timing_in_range s" "channels s' = channels s"
  shows "timing_in_range s'"
  using assms by (simp add: timing_in_range_def)

lemma timing_in_range_nth:
  assumes "timing_in_range s" "i < length (channels s)"
  shows "on_time (channels s ! i) \<le> 4095 \<and> off_time (channels s ! i) \<le> 4095"
  using assms by (simp add: timing_in_range_def list_all_length)

lemma timing_Start:
  assumes "timing_in_range s"
  shows "timing_in_range (snd (Start s c))"
proof -
  obtain r s1 where r: "SetChannelTiming s c (on_time (channels s ! unat c))
       (off_time (channels s ! unat c)) = (r, s1)"
    by (cases "SetChannelTiming s c (on_time (channels s ! unat c)) (off_time (channels s ! unat c))")
  then have c: "channels s1 = channels s"
    using channels_SetChannelTiming [of s c "on_time (channels s ! unat c)" "off_time (channels s ! unat c)"]
    by simp
  show ?thesis
  proof (cases "is_initialized s \<and> IsValidChannel c \<and> r = PWM_SUCCESS")
    case True
    then have "snd (Start s c) = s1\<lparr>channels := (channels s1)[unat c :=
                     (channels s1 ! unat c)\<lparr>is_active := True\<rparr>]\<rparr>"
      using r by (simp add: Start_def)
    then show ?thesis
      using timing_in_range_nth [OF assms, of "unat c"]
      by (intro timing_in_range_update [OF assms, where i = "unat c"
            and x = "(channels s ! unat c)\<lparr>is_active := True\<rparr>"]) (simp_all add: c)
  next
    case False
    then have "channels (snd (Start s c)) = channels s"
      using r c by (auto simp add: Start_def)
    with assms show ?thesis by (rule timing_in_range_same)
  qed
qed

lemma timing_Stop:
  assumes "timing_in_range s"
  shows "timing_in_range (snd (Stop s c))"
proof -
  obtain r s1 where r: "SetChannelTiming s c 0 MAX_PWM_VALUE = (r, s1)"
    by (cases "SetChannelTiming s c 0 MAX_PWM_VALUE")
  then have c: "channels s1 = channels s"
    using channels_SetChannelTiming [of s c 0 MAX_PWM_VALUE] by simp
  show ?thesis
  proof (cases "is_initialized s \<and> IsValidChannel c \<and> r = PWM_SUCCESS")
    case True
    then have "snd (Stop s c) = s1\<lparr>channels := (channels s1)[unat c :=
                     (channels s1 ! unat c)\<lparr>is_active := False\<rparr>]\<rparr>"
      using r by (simp add: Stop_def)
    then show ?thesis
      using timing_in_range_nth [OF assms, of "unat c"]
      by (intro timing_in_range_update [OF assms, where i = "unat c"
            and x = "(channels s ! unat c)\<lparr>is_active := False\<rparr>"]) (simp_all add: c)
  next
    case False
    then have "channels (snd (Stop s c)) = channels s"
      using r c by (auto simp add: Stop_def)
    with assms show ?thesis by (rule timing_in_range_same)
  qed
qed

lemma timing_SetDutyCycle:
  assumes "timing_in_range s" "SetDutyCycle s c d = Some (r, s')"
  shows "timing_in_range s'"
proof (cases "is_initialized s \<and> IsValidChannel c \<and> \<not> (flt d (Finite 0) \<or> fgt d (Finite 1))")
  case False
  with assms(2) have "s' = s" by (auto simp add: SetDutyCycle_def split: if_splits)
  with assms(1) show ?thesis by simp
next
  case True
  with assms(2) obtain on off where t: "DutyCycleToTiming d = Some (on, off)"
    by (cases "DutyCycleToTiming d") (auto simp add: SetDutyCycle_def)
  obtain r1 s1 where r: "SetChannelTiming s c on off = (r1, s1)"
    by (cases "SetChannelTiming s c on off")
  then have c: "channels s1 = channels s"
    using channels_SetChannelTiming [of s c on off] by simp
  show ?thesis
  proof (cases "r1 = PWM_SUCCESS")
    case ok: True
    with True t r assms(2) have "s' = s1\<lparr>channels := (channels s1)[unat c :=
          (channels s1 ! unat c)\<lparr>duty_cycle := d, on_time := on, off_time := off\<rparr>]\<rparr>"
      by (auto simp add: SetDutyCycle_def)
    then show ?thesis
      using DutyCycleToTiming_range [OF t]
      by (intro timing_in_range_update [OF assms(1), where i = "unat c"
            and x = "(channels s ! unat c)\<lparr>duty_cycle := d, on_time := on, off_time := off\<rparr>"])
         (simp_all add: c)
  next
    case bad: False
    with True t r assms(2) have "s' = s1" by (auto simp add: SetDutyCycle_def)
    with assms(1) c show ?thesis by (simp add: timing_in_range_def)
  qed
qed

lemma channels_Sleep [simp]: "channels (snd (Sleep s)) = channels s"
  by (simp add: Sleep_def split: prod.splits sum.splits)
    (metis channels_ReadRegister snd_conv)

lemma channels_Wakeup [simp]: "channels (snd (Wakeup s)) = channels s"
  by (simp add: Wakeup_def split: prod.splits sum.splits)
    (metis channels_ReadRegister snd_conv)

lemma channels_ConfigureExternalClock [simp]:
  "channels (snd (ConfigureExternalClock s f)) = channels s"
  by (simp add: ConfigureExternalClock_def split: prod.splits sum.splits)
    (metis channels_ReadRegister snd_conv)

lemma channels_SetOutputDriver [simp]: "channels (snd (SetOutputDriver s t)) = channels s"
  by (simp add: SetOutputDriver_def split: prod.splits sum.splits)
    (metis channels_ReadRegister snd_conv)

lemma channels_SetOutputInvert [simp]: "channels (snd (SetOutputInvert s t)) = channels s"
  by (simp add: SetOutputInvert_def split: prod.splits sum.splits)
    (metis channels_ReadRegister snd_conv)

lemma channels_SetFrequency:
  assumes "SetFrequency s c f = Some (r, s')"
  shows "channels s' = channels s"
proof -
  have w: "channels s1 = channels s0" if "WriteRegister s0 reg v = (r, s1)" for s0 s1 reg v r
    using channels_WriteRegister [of s0 reg v] that by simp
  have rd: "channels s1 = channels s0" if "ReadRegister s0 reg = (x, s1)" for s0 s1 reg x
    using channels_ReadRegister [of s0 reg] that by simp
  show ?thesis
    using assms
    by (auto simp add: SetFrequency_def Let_def
        split: if_splits option.splits prod.splits sum.splits dest!: w rd)
qed

lemma list_all_update:
  assumes "list_all P xs" "P x"
  shows "list_all P (xs[i := x])"
proof (cases "i < length xs")
  case True
  with assms show ?thesis by (auto simp add: list_all_length nth_list_update)
next
  case False
  with assms show ?thesis by (simp add: list_update_beyond)
qed

lemma timing_reset_channels:
  "list_all (\<lambda>c. on_time c \<le> 4095 \<and> off_time c \<le> 4095) cs
   \<Longrightarrow> list_all (\<lambda>c. on_time c \<le> 4095 \<and> off_time c \<le> 4095)
         (fold (\<lambda>i c. c[i := ChannelState_init]) ns cs)"
proof (induction ns arbitrary: cs)
  case Nil
  then show ?case by simp
next
  case (Cons i ns)
  have "list_all (\<lambda>c. on_time c \<le> 4095 \<and> off_time c \<le> 4095) (cs[i := ChannelState_init])"
    using Cons.prems by (intro list_all_update) (simp_all add: ChannelState_init_def)
  from Cons.IH [OF this] show ?case by simp
qed

lemma timing_Reset:
  assumes "timing_in_range s"
  shows "timing_in_range (snd (Reset s))"
  using assms timing_reset_channels [of "channels s" "[0..<unat MAX_CHANNELS]"]
  by (auto simp add: Reset_def timing_in_range_def reset_channels_def Let_def
      split: option.splits prod.splits)

lemma timing_Initialize:
  assumes "timing_in_range s" "Initialize s = Some (r, s')"
  shows "timing_in_range s'"
proof (cases "is_initialized s")
  case True
  with assms show ?thesis by (simp add: Initialize_def)
next
  case False
  show ?thesis
  proof (cases "i2c s")
    case None
    with False assms show ?thesis by (simp add: Initialize_def)
  next
    case (Some b)
    have "list_all (\<lambda>c. on_time c \<le> 4095 \<and> off_time c \<le> 4095) (reset_channels (channels s))"
      unfolding reset_channels_def using assms(1)
      by (intro timing_reset_channels) (simp add: timing_in_range_def)
    with assms show ?thesis
      unfolding Initialize_uninitialized [OF False Some]
      by (auto simp add: timing_in_range_def split: if_splits)
  qed
qed

lemma timing_ConfigureChannel:
  assumes "timing_in_range s" "ConfigureChannel s c config = Some (r, s')"
  shows "timing_in_range s'"
proof -
  have f: "timing_in_range s1" if "SetFrequency s c (frequency_hz config) = Some (r1, s1)" for r1 s1
    using channels_SetFrequency [OF that] assms(1) by (simp add: timing_in_range_def)
  show ?thesis
    using assms
    by (auto simp add: ConfigureChannel_def
        split: if_splits option.splits prod.splits dest: f timing_SetDutyCycle)
qed

lemma timing_start_loop:
  assumes "timing_in_range s"
  shows "timing_in_range (snd (start_loop s cs))"
  using assms
proof (induction cs arbitrary: s)
  case Nil
  then show ?case by simp
next
  case (Cons c cs)
  from timing_Start [OF Cons.prems, of c] Cons.IH show ?case
    by (cases "Start s c") (auto simp add: Let_def)
qed

lemma timing_stop_loop:
  assumes "timing_in_range s"
  shows "timing_in_range (snd (stop_loop s cs))"
  using assms
proof (induction cs arbitrary: s)
  case Nil
  then show ?case by simp
next
  case (Cons c cs)
  from timing_Stop [OF Cons.prems, of c] Cons.IH show ?case
    by (cases "Stop s c") (auto simp add: Let_def)
qed

lemma timing_duty_loop:
  assumes "timing_in_range s" "duty_loop s cs = Some (r, s')"
  shows "timing_in_range s'"
  using assms
proof (induction cs arbitrary: s)
  case Nil
  then show ?case by simp
next
  case (Cons x cs)
  obtain c d where x: "x = (c, d)" by (cases x)
  from Cons.prems(2) x obtain r1 s1 where 1: "SetDutyCycle s c d = Some (r1, s1)"
    by (cases "SetDutyCycle s c d") auto
  from timing_SetDutyCycle [OF Cons.prems(1) 1] have t1: "timing_in_range s1" .
  show ?case
  proof (cases "r1 = PWM_SUCCESS")
    case True
    with Cons.prems(2) x 1 have "duty_loop s1 cs = Some (r, s')" by simp
    from Cons.IH [OF t1 this] show ?thesis .
  next
    case False
    with Cons.prems(2) x 1 t1 show ?thesis by simp
  qed
qed

lemma timing_stop_all:
  assumes "timing_in_range s"
  shows "timing_in_range (fold (\<lambda>i st. snd (Stop st (of_nat i))) ns s)"
  using assms by (induction ns arbitrary: s) (simp_all add: timing_Stop)

lemma timing_Deinitialize:
  assumes "timing_in_range s"
  shows "timing_in_range (snd (Deinitialize s))"
proof -
  have "timing_in_range (stop_all s)"
    unfolding stop_all_def by (rule timing_stop_all [OF assms])
  then have "timing_in_range (snd (Sleep (stop_all s)))"
    by (simp add: timing_in_range_def)
  then show ?thesis
    using assms by (simp add: Deinitialize_def Let_def timing_in_range_def split: option.splits)
qed

lemma timing_apply_call:
  assumes "timing_in_range s" "apply_call s c = Some s'"
  shows "timing_in_range s'"
proof (cases c)
  case Call_Initialize
  with assms show ?thesis by (auto dest: timing_Initialize)
next
  case Call_Deinitialize
  with assms show ?thesis by (auto simp add: timing_Deinitialize)
next
  case (Call_ConfigureChannel x31 x32)
  with assms show ?thesis by (auto dest: timing_ConfigureChannel)
next
  case (Call_SetDutyCycle x41 x42)
  with assms show ?thesis by (auto dest: timing_SetDutyCycle)
next
  case (Call_SetFrequency x51 x52)
  with assms show ?thesis by (auto simp add: timing_in_range_def dest: channels_SetFrequency)
next
  case (Call_Start x6)
  with assms show ?thesis by (auto simp add: timing_Start)
next
  case (Call_Stop x7)
  with assms show ?thesis by (auto simp add: timing_Stop)
next
  case (Call_StartMultiple x131 x132)
  with assms show ?thesis
    by (auto simp add: StartMultiple_def timing_start_loop split: option.splits)
next
  case (Call_StopMultiple x141 x142)
  with assms show ?thesis
    by (auto simp add: StopMultiple_def timing_stop_loop split: option.splits)
next
  case (Call_SetDutyCycleMultiple x151 x152 x153)
  with assms show ?thesis
    by (auto simp add: SetDutyCycleMultiple_def split: option.splits if_splits
        dest: timing_duty_loop)
qed (use assms in \<open>auto simp add: timing_in_range_def GetDutyCycle_def GetFrequency_def
      IsChannelActive_def GetMaxChannels_def not_supported_def SetOutputEnable_def\<close>)

lemma timing_run_calls:
  assumes "timing_in_range s" "run_calls s cs = Some s'"
  shows "timing_in_range s'"
  using assms
proof (induction cs arbitrary: s)
  case Nil
  then show ?case by simp
next
  case (Cons c cs)
  from Cons.prems(2) obtain s1 where 1: "apply_call s c = Some s1" "run_calls s1 cs = Some s'"
    by (cases "apply_call s c") auto
  from Cons.IH [OF timing_apply_call [OF Cons.prems(1) 1(1)] 1(2)] show ?case .
qed

lemma timing_new: "timing_in_range (Pca9685Pwm_new i2c_interface addr oe_pin)"
  by (simp add: timing_in_range_def Pca9685Pwm_new_def ChannelState_init_def list_all_length)

lemma SetFrequency_defined: "SetFrequency s c f \<noteq> None"
proof (cases "\<not> (f < MIN_FREQUENCY \<or> MAX_FREQUENCY < f)")
  case True
  from frequency_in_range [OF this] show ?thesis
    by (simp add: SetFrequency_def Let_def split: prod.splits sum.splits)
next
  case False
  then show ?thesis by (auto simp add: SetFrequency_def)
qed

lemma SetDutyCycle_defined:
  assumes "d \<noteq> NaN"
  shows "SetDutyCycle s c d \<noteq> None"
  using DutyCycleToTiming_defined [OF assms]
  by (auto simp add: SetDutyCycle_def Let_def split: prod.splits)

lemma Initialize_defined: "Initialize s \<noteq> None"
proof (cases "is_initialized s")
  case True
  then show ?thesis by (simp add: Initialize_def)
next
  case False
  show ?thesis
  proof (cases "i2c s")
    case None
    with False show ?thesis by (simp add: Initialize_def)
  next
    case (Some b)
    show ?thesis by (simp add: Initialize_uninitialized [OF False Some])
  qed
qed

lemma ConfigureChannel_defined:
  assumes "initial_duty_cycle config \<noteq> NaN"
  shows "ConfigureChannel s c config \<noteq> None"
  using SetFrequency_defined [of s c "frequency_hz config"]
  by (auto simp add: ConfigureChannel_def SetDutyCycle_defined [OF assms]
      split: option.splits prod.splits)

lemma duty_loop_defined:
  assumes "NaN \<notin> snd ` set cs"
  shows "duty_loop s cs \<noteq> None"
  using assms
proof (induction cs arbitrary: s)
  case Nil
  then show ?case by simp
next
  case (Cons x cs)
  obtain c d where x: "x = (c, d)" by (cases x)
  with Cons.prems have "d \<noteq> NaN" by auto
  from SetDutyCycle_defined [OF this, of s c] Cons.IH Cons.prems x show ?case
    by (auto split: option.splits)
qed

lemma SetDutyCycleMultiple_defined:
  assumes "case ds of None \<Rightarrow> True | Some xs \<Rightarrow> NaN \<notin> set xs"
  shows "SetDutyCycleMultiple s ids ds n \<noteq> None"
proof (cases "ids = None \<or> ds = None \<or> n = 0")
  case True
  then show ?thesis by (auto simp add: SetDutyCycleMultiple_def split: option.splits)
next
  case False
  then obtain cs xs where i: "ids = Some cs" "ds = Some xs" "n \<noteq> 0" by auto
  with assms have "NaN \<notin> set xs" by simp
  then have "NaN \<notin> snd ` set (zip (take (unat n) cs) (take (unat n) xs))"
    by (auto dest!: set_zip_rightD in_set_takeD)
  from duty_loop_defined [OF this] i show ?thesis
    by (simp add: SetDutyCycleMultiple_def)
qed

lemma apply_call_defined:
  assumes "nan_free c"
  shows "apply_call s c \<noteq> None"
  using assms
  by (cases c)
    (simp_all add: Initialize_defined SetFrequency_defined SetDutyCycle_defined
      ConfigureChannel_defined SetDutyCycleMultiple_defined)

lemma run_calls_defined:
  assumes "list_all nan_free cs"
  shows "run_calls s cs \<noteq> None"
  using assms
proof (induction cs arbitrary: s)
  case Nil
  then show ?case by simp
next
  case (Cons c cs)
  with apply_call_defined [of c s] show ?case by (auto split: option.splits)
qed

subsection \<open>An uninitialized driver stays uninitialized\<close>

lemma start_loop_uninitialized:
  assumes "\<not> is_initialized s"
  shows "\<not> is_initialized (snd (start_loop s cs))"
  using assms by (cases cs) (simp_all add: Start_def)

lemma stop_loop_uninitialized:
  assumes "\<not> is_initialized s"
  shows "\<not> is_initialized (snd (stop_loop s cs))"
  using assms by (cases cs) (simp_all add: Stop_def)

lemma duty_loop_uninitialized:
  assumes "\<not> is_initialized s" "duty_loop s cs = Some (r, s')"
  shows "\<not> is_initialized s'"
proof (cases cs)
  case Nil
  with assms show ?thesis by simp
next
  case (Cons x xs)
  obtain c d where "x = (c, d)" by (cases x)
  with Cons assms show ?thesis by (auto simp add: SetDutyCycle_def)
qed

lemma Initialize_stays_uninitialized:
  assumes "\<not> is_initialized s" "Initialize s = Some (r, s')"
  shows "\<not> is_initialized s' \<and> r \<noteq> PWM_SUCCESS"
proof (cases "i2c s")
  case None
  with assms show ?thesis by (auto simp add: Initialize_def)
next
  case (Some b)
  with assms show ?thesis
    by (auto simp add: Initialize_uninitialized split: if_splits)
qed

lemma apply_call_uninitialized:
  assumes "\<not> is_initialized s" "apply_call s c = Some s'"
  shows "\<not> is_initialized s'"
proof (cases c)
  case Call_Initialize
  with assms show ?thesis by (auto dest: Initialize_stays_uninitialized)
next
  case (Call_StartMultiple ids n)
  with assms show ?thesis
    by (auto simp add: StartMultiple_def start_loop_uninitialized split: option.splits if_splits)
next
  case (Call_StopMultiple ids n)
  with assms show ?thesis
    by (auto simp add: StopMultiple_def stop_loop_uninitialized split: option.splits if_splits)
next
  case (Call_SetDutyCycleMultiple ids ds n)
  with assms show ?thesis
    by (auto simp add: SetDutyCycleMultiple_def split: option.splits if_splits
        dest: duty_loop_uninitialized)
qed (use assms in \<open>auto simp add: ConfigureChannel_def SetDutyCycle_def SetFrequency_def
      Start_def Stop_def GetDutyCycle_def GetFrequency_def Deinitialize_def Sleep_def Wakeup_def
      ConfigureExternalClock_def SetOutputDriver_def SetOutputInvert_def IsChannelActive_def
      GetMaxChannels_def not_supported_def SetOutputEnable_def split: if_splits\<close>)

lemma duty_loop_uninitialized_defined:
  assumes "\<not> is_initialized s"
  shows "duty_loop s cs \<noteq> None"
proof (cases cs)
  case Nil
  then show ?thesis by simp
next
  case (Cons x xs)
  obtain c d where "x = (c, d)" by (cases x)
  with Cons assms show ?thesis by (simp add: SetDutyCycle_def)
qed

lemma apply_call_uninitialized_defined:
  assumes "\<not> is_initialized s"
  shows "apply_call s c \<noteq> None"
proof (cases c)
  case (Call_SetDutyCycleMultiple ids ds n)
  with duty_loop_uninitialized_defined [OF assms] show ?thesis
    by (auto simp add: SetDutyCycleMultiple_def split: option.splits)
qed (use assms in \<open>simp_all add: Initialize_defined SetFrequency_defined SetDutyCycle_def
      ConfigureChannel_def\<close>)

lemma run_calls_uninitialized_defined:
  assumes "\<not> is_initialized s"
  shows "run_calls s cs \<noteq> None"
  using assms
proof (induction cs arbitrary: s)
  case Nil
  then show ?case by simp
next
  case (Cons c cs)
  from apply_call_uninitialized_defined [OF Cons.prems, of c]
  obtain s1 where 1: "apply_call s c = Some s1" by blast
  from apply_call_uninitialized [OF Cons.prems 1] have "\<not> is_initialized s1" .
  from Cons.IH [OF this] 1 show ?case by simp
qed

lemma run_calls_new_defined:
  "run_calls (Pca9685Pwm_new i2c_interface addr oe_pin) cs \<noteq> None"
  by (rule run_calls_uninitialized_defined) (simp add: Pca9685Pwm_new_def)

lemma DutyCycleToTiming_NaN: "DutyCycleToTiming NaN = None"
  by (simp add: DutyCycleToTiming_def fge_def float_to_uint_def)




section \<open>Further properties of the initialized flag\<close>

text \<open>
  X1. On an uninitialized driver the channel operations, the getters, \<open>Deinitialize\<close>,
  \<open>Sleep\<close>, \<open>Wakeup\<close> and the three mode setters return \<open>PWM_NOT_INITIALIZED\<close> and
  leave the driver and the transport untouched.
\<close>

theorem uninitialized_driver_refuses:
  assumes "\<not> is_initialized s"
  shows "ConfigureChannel s c config = Some (PWM_NOT_INITIALIZED, s)
       \<and> SetDutyCycle s c d = Some (PWM_NOT_INITIALIZED, s)
       \<and> SetFrequency s c f = Some (PWM_NOT_INITIALIZED, s)
       \<and> Start s c = (PWM_NOT_INITIALIZED, s)
       \<and> Stop s c = (PWM_NOT_INITIALIZED, s)
       \<and> GetDutyCycle s c = (Inl PWM_NOT_INITIALIZED, s)
       \<and> GetFrequency s c = (Inl PWM_NOT_INITIALIZED, s)
       \<and> Deinitialize s = (PWM_NOT_INITIALIZED, s)
       \<and> Sleep s = (PWM_NOT_INITIALIZED, s)
       \<and> Wakeup s = (PWM_NOT_INITIALIZED, s)
       \<and> ConfigureExternalClock s f = (PWM_NOT_INITIALIZED, s)
       \<and> SetOutputDriver s t = (PWM_NOT_INITIALIZED, s)
       \<and> SetOutputInvert s t = (PWM_NOT_INITIALIZED, s)"
  using assms
  by (simp add: ConfigureChannel_def SetDutyCycle_def SetFrequency_def Start_def Stop_def
      GetDutyCycle_def GetFrequency_def Deinitialize_def Sleep_def Wakeup_def
      ConfigureExternalClock_def SetOutputDriver_def SetOutputInvert_def)

theorem uninitialized_driver_refuses_witness:
  "\<not> is_initialized fresh_driver
   \<and> Start fresh_driver 0 = (PWM_NOT_INITIALIZED, fresh_driver)
   \<and> SetFrequency fresh_driver 0 50 = Some (PWM_NOT_INITIALIZED, fresh_driver)
   \<and> Deinitialize fresh_driver = (PWM_NOT_INITIALIZED, fresh_driver)"
  using uninitialized_driver_refuses [of fresh_driver 0 _ _ 50]
  by (simp add: fresh_driver_def Pca9685Pwm_new_def)

text \<open>
  X2. \<open>Initialize\<close> on an initialized driver returns success and changes nothing.
\<close>

theorem Initialize_twice_no_effect:
  assumes "is_initialized s"
  shows "Initialize s = Some (PWM_SUCCESS, s)"
  using assms by (simp add: Initialize_def)

theorem Initialize_twice_no_effect_witness:
  "is_initialized ready_driver \<and> Initialize ready_driver = Some (PWM_SUCCESS, ready_driver)"
  using Initialize_twice_no_effect [of ready_driver] by (simp add: ready_driver_simps)

text \<open>
  X3. A consequence of the order of the steps in \<open>Initialize\<close> (see C1): no sequence of
  public operations takes a constructed driver to the initialized state.
\<close>

theorem driver_never_becomes_initialized:
  assumes "run_calls (Pca9685Pwm_new i2c_interface addr oe_pin) cs = Some s'"
  shows "\<not> is_initialized s'"
proof -
  have "\<not> is_initialized s'" if "\<not> is_initialized s" "run_calls s cs = Some s'" for s
    using that
  proof (induction cs arbitrary: s)
    case Nil
    then show ?case by simp
  next
    case (Cons c cs)
    from Cons.prems(2) obtain s1 where 1: "apply_call s c = Some s1" "run_calls s1 cs = Some s'"
      by (cases "apply_call s c") auto
    from Cons.IH [OF apply_call_uninitialized [OF Cons.prems(1) 1(1)] 1(2)] show ?case .
  qed
  moreover have "\<not> is_initialized (Pca9685Pwm_new i2c_interface addr oe_pin)"
    by (simp add: Pca9685Pwm_new_def)
  ultimately show ?thesis using assms by blast
qed

theorem driver_never_becomes_initialized_witness:
  "\<exists>s'. run_calls (Pca9685Pwm_new (Some ok_bus) 0x40 (- 1))
            [Call_Initialize, Call_Initialize, Call_Start 0] = Some s'
     \<and> \<not> is_initialized s'"
proof -
  have "list_all nan_free [Call_Initialize, Call_Initialize, Call_Start 0]" by simp
  from run_calls_defined [OF this, of "Pca9685Pwm_new (Some ok_bus) 0x40 (- 1)"]
  obtain s' where s': "run_calls (Pca9685Pwm_new (Some ok_bus) 0x40 (- 1))
            [Call_Initialize, Call_Initialize, Call_Start 0] = Some s'" by blast
  from driver_never_becomes_initialized [OF this] s' show ?thesis by blast
qed

end
